theory Spec2Isabelle
  imports Main "HOL-Library.AList"
begin

section \<open>The HLS supervisor: data model\<close>

text \<open>
  The repository holds two variants of one Node.js program: the current server
  (\<^verbatim>\<open>src/unnamed/part_000\<close>) and its predecessor \<^verbatim>\<open>stream-server.old.js\<close>.
  Both are embedded. A definition that exists in both variants with different bodies
  carries the suffix \<open>_old\<close> for the predecessor; \<open>stopStream\<close>,
  \<open>safeDeleteFolder\<close> and the polling loop of the manifest route exist only in the
  predecessor.

  JavaScript runs every callback to completion on one thread, so each synchronous block of
  the source is one state transformer on the record \<open>server\<close>. \<open>Date.now()\<close> is the
  parameter \<open>now\<close> of the block that reads it.
\<close>

subsection \<open>Strings, the id pattern and Node's \<open>path.join\<close>\<close>

text \<open>\<open>\w\<close> of a JavaScript regular expression without flags: \<open>[A-Za-z0-9_]\<close>.\<close>

definition is_word_char :: "char \<Rightarrow> bool" where
  "is_word_char c =
     (let n = (of_char c :: nat)
      in (48 \<le> n \<and> n \<le> 57) \<or> (65 \<le> n \<and> n \<le> 90) \<or> n = 95 \<or> (97 \<le> n \<and> n \<le> 122))"

text \<open>\<^verbatim>\<open>/^[\w-]+$/.test(ch)\<close>: one or more characters, each a word character or \<open>-\<close>
  (without the \<open>m\<close> flag, \<open>$\<close> matches at the end of the input only).\<close>

definition valid_channel :: "string \<Rightarrow> bool" where
  "valid_channel ch = (ch \<noteq> [] \<and> list_all (\<lambda>c. is_word_char c \<or> c = CHR ''-'') ch)"

text \<open>\<open>String.prototype.split\<close> with a one-character separator, and \<open>Array.prototype.join\<close>.\<close>

fun split_on :: "char \<Rightarrow> string \<Rightarrow> string list" where
  "split_on d [] = [[]]"
| "split_on d (c # cs) =
     (if c = d then [] # split_on d cs
      else (case split_on d cs of [] \<Rightarrow> [[c]] | x # xs \<Rightarrow> (c # x) # xs))"

fun join_with :: "string \<Rightarrow> string list \<Rightarrow> string" where
  "join_with d [] = []"
| "join_with d [x] = x"
| "join_with d (x # y # ys) = x @ d @ join_with d (y # ys)"

text \<open>
  Node's POSIX \<open>path.normalize\<close> and \<open>path.join\<close> (library code, modelled from Node's
  \<^verbatim>\<open>lib/path.js\<close>): \<open>normalizeString\<close> walks the \<open>/\<close>-separated segments, drops empty
  segments and \<open>.\<close>, and lets \<open>..\<close> remove the segment before it (or keeps it, for a relative
  path that climbs above its start). The accumulator holds the kept segments, last first.
\<close>

fun normalizeString :: "bool \<Rightarrow> string list \<Rightarrow> string list \<Rightarrow> string list" where
  "normalizeString allowAboveRoot acc [] = rev acc"
| "normalizeString allowAboveRoot acc (s # ss) =
     (if s = [] \<or> s = ''.'' then normalizeString allowAboveRoot acc ss
      else if s = ''..'' then
        (case acc of
           [] \<Rightarrow> normalizeString allowAboveRoot (if allowAboveRoot then [''..''] else []) ss
         | t # ts \<Rightarrow>
             if t = ''..'' then
               normalizeString allowAboveRoot (if allowAboveRoot then ''..'' # acc else acc) ss
             else normalizeString allowAboveRoot ts ss)
      else normalizeString allowAboveRoot (s # acc) ss)"

definition isAbsolute :: "string \<Rightarrow> bool" where
  "isAbsolute p = (case p of [] \<Rightarrow> False | c # _ \<Rightarrow> c = CHR ''/'')"

definition normalize :: "string \<Rightarrow> string" where
  "normalize p =
     (if p = [] then ''.''
      else
        let trailingSeparator = (last p = CHR ''/'');
            q = join_with ''/'' (normalizeString (\<not> isAbsolute p) [] (split_on (CHR ''/'') p))
        in if q = [] then (if isAbsolute p then ''/'' else if trailingSeparator then ''./'' else ''.'')
           else (if isAbsolute p then ''/'' else []) @ q @ (if trailingSeparator then ''/'' else []))"

definition path_join :: "string list \<Rightarrow> string" where
  "path_join args =
     (let parts = filter (\<lambda>a. a \<noteq> []) args
      in if parts = [] then ''.'' else normalize (join_with ''/'' parts))"

text \<open>The segments of a path, and "\<open>p\<close> lies strictly inside directory \<open>base\<close>": the
  segments of \<open>p\<close> are those of \<open>base\<close> followed by at least one more, none of the added
  ones being empty, \<open>.\<close> or \<open>..\<close>.\<close>

definition plain_segment :: "string \<Rightarrow> bool" where
  "plain_segment s = (s \<noteq> [] \<and> s \<noteq> ''.'' \<and> s \<noteq> ''..'' \<and> CHR ''/'' \<notin> set s)"

definition path_segments :: "string \<Rightarrow> string list" where
  "path_segments p = filter (\<lambda>s. s \<noteq> []) (split_on (CHR ''/'') p)"

definition strictly_inside :: "string \<Rightarrow> string \<Rightarrow> bool" where
  "strictly_inside base p =
     (let b = path_segments base; q = path_segments p
      in length b < length q \<and> take (length b) q = b \<and> list_all plain_segment (drop (length b) q))"

subsection \<open>Directories of the server and \<open>getPaths\<close>\<close>

text \<open>\<open>ROOT_DIR\<close> is \<open>__dirname\<close>, a value of the run: it is the parameter \<open>root\<close>.\<close>

definition STREAMS_DIR :: "string \<Rightarrow> string" where
  "STREAMS_DIR root = path_join [root, ''streams'']"

definition PLAYLISTS_DIR :: "string \<Rightarrow> string" where
  "PLAYLISTS_DIR root = path_join [root, ''playlists'']"

definition ASSETS_DIR :: "string \<Rightarrow> string" where
  "ASSETS_DIR root = path_join [root, ''assets'']"

definition INACTIVITY_LIMIT :: int where
  "INACTIVITY_LIMIT = 120000"

record paths =
  dir :: string
  playlist :: string
  segments :: string

definition getPaths :: "string \<Rightarrow> string \<Rightarrow> paths" where
  "getPaths root ch =
     (let d = path_join [STREAMS_DIR root, ch]
      in \<lparr> dir = d,
           playlist = path_join [d, ch @ ''.m3u8''],
           segments = path_join [d, ch @ ''_%03d.ts''] \<rparr>)"

subsection \<open>The file system\<close>

text \<open>
  The file system is a map from path to node. \<open>fs.existsSync\<close> is true of files and
  directories; \<open>fs.readFileSync\<close> throws on a missing path and on a directory;
  \<open>fs.mkdirSync\<close> and \<open>fsp.rm\<close> with \<open>recursive\<close> and \<open>force\<close> are taken to succeed;
  \<open>rm\<close> removes the path and everything below it.
\<close>

datatype fs_node = Dir | File string

type_synonym filesystem = "string \<rightharpoonup> fs_node"

definition existsSync :: "filesystem \<Rightarrow> string \<Rightarrow> bool" where
  "existsSync f p = (f p \<noteq> None)"

definition readFileSync :: "filesystem \<Rightarrow> string \<Rightarrow> string option" where
  "readFileSync f p = (case f p of Some (File c) \<Rightarrow> Some c | _ \<Rightarrow> None)"

definition below :: "string \<Rightarrow> string \<Rightarrow> bool" where
  "below d p = (p = d \<or> take (Suc (length d)) p = d @ ''/'')"

definition rm_rf :: "string \<Rightarrow> filesystem \<Rightarrow> filesystem" where
  "rm_rf d f = (\<lambda>p. if below d p then None else f p)"

subsection \<open>\<open>parseM3U\<close>\<close>

text \<open>
  The content of a file is the list of its bytes, and \<open>readFileSync(file, 'utf-8')\<close> reads
  them as UTF-8 (a byte order mark is kept, as the character U+FEFF). A string of the
  program is held here as its UTF-8 bytes. \<open>String.prototype.trim\<close> removes, at both ends,
  every character of the WhiteSpace and LineTerminator classes of ECMAScript: U+0009 to
  U+000D, U+0020, U+00A0, U+1680, U+2000 to U+200A, U+2028, U+2029, U+202F, U+205F, U+3000
  and U+FEFF. \<open>white_space_utf8\<close> lists their encodings. A lead byte of UTF-8 never occurs
  inside the encoding of another character, so an encoding of the list at the head or at
  the end of the bytes is that character at the head or at the end of the decoded string,
  also when other bytes of the file are not valid UTF-8. Splitting at the byte \<open>0x0A\<close> and
  testing the first byte against \<open>#\<close> agree in the same way with the \<open>split\<close> at the line
  feed and with \<open>startsWith('#')\<close>.
\<close>

definition white_space_utf8 :: "string list" where
  "white_space_utf8 =
     [[CHR 0x09], [CHR 0x0A], [CHR 0x0B], [CHR 0x0C], [CHR 0x0D], [CHR 0x20],
      [CHR 0xC2, CHR 0xA0],
      [CHR 0xE1, CHR 0x9A, CHR 0x80],
      [CHR 0xE2, CHR 0x80, CHR 0x80], [CHR 0xE2, CHR 0x80, CHR 0x81],
      [CHR 0xE2, CHR 0x80, CHR 0x82], [CHR 0xE2, CHR 0x80, CHR 0x83],
      [CHR 0xE2, CHR 0x80, CHR 0x84], [CHR 0xE2, CHR 0x80, CHR 0x85],
      [CHR 0xE2, CHR 0x80, CHR 0x86], [CHR 0xE2, CHR 0x80, CHR 0x87],
      [CHR 0xE2, CHR 0x80, CHR 0x88], [CHR 0xE2, CHR 0x80, CHR 0x89],
      [CHR 0xE2, CHR 0x80, CHR 0x8A],
      [CHR 0xE2, CHR 0x80, CHR 0xA8], [CHR 0xE2, CHR 0x80, CHR 0xA9],
      [CHR 0xE2, CHR 0x80, CHR 0xAF],
      [CHR 0xE2, CHR 0x81, CHR 0x9F],
      [CHR 0xE3, CHR 0x80, CHR 0x80],
      [CHR 0xEF, CHR 0xBB, CHR 0xBF]]"

text \<open>The number of bytes of the encoding in \<open>us\<close> that the string starts with (0 when it
  starts with none), and the removal of all such encodings from the head. \<open>trim\<close> removes
  them from the head, and from the end by working on the reversed string with the reversed
  encodings.\<close>

definition ws_unit :: "string list \<Rightarrow> string \<Rightarrow> nat" where
  "ws_unit us s = (case find (\<lambda>u. take (length u) s = u) us of None \<Rightarrow> 0 | Some u \<Rightarrow> length u)"

fun strip_ws :: "string list \<Rightarrow> string \<Rightarrow> string" where
  "strip_ws us s =
     (if s = [] \<or> ws_unit us s = 0 then s else strip_ws us (drop (ws_unit us s) s))"

definition trim :: "string \<Rightarrow> string" where
  "trim s = rev (strip_ws (map rev white_space_utf8) (rev (strip_ws white_space_utf8 s)))"

definition startsWith_hash :: "string \<Rightarrow> bool" where
  "startsWith_hash l = (case l of [] \<Rightarrow> False | c # _ \<Rightarrow> c = CHR ''#'')"

datatype m3u_error = ReadFailed | NoUrlFound

text \<open>The first trimmed line that is non-empty and does not start with \<open>#\<close>; every
  exception inside the \<open>try\<close> is rethrown as one \<open>Error\<close>, the left injection here.\<close>

definition parseM3U :: "filesystem \<Rightarrow> string \<Rightarrow> m3u_error + string" where
  "parseM3U f file =
     (case readFileSync f file of
        None \<Rightarrow> Inl ReadFailed
      | Some content \<Rightarrow>
          (case find (\<lambda>l. l \<noteq> [] \<and> \<not> startsWith_hash l) (map trim (split_on (CHR 0x0A) content)) of
             None \<Rightarrow> Inl NoUrlFound
           | Some url \<Rightarrow> Inr url))"

subsection \<open>Registry, processes, timers\<close>

text \<open>
  Every call of \<open>startStream\<close> that gets as far as \<open>spawn\<close> allocates one state object
  (\<open>state\<close> / \<open>streamState\<close>) that owns one \<open>ChildProcess\<close>. The objects live in the
  list \<open>heap\<close>, in the order of their creation; a reference is an index into it, so the
  length of \<open>heap\<close> is the number of processes spawned so far. The registry
  \<open>active\<close> (a JavaScript \<open>Map\<close>, which keeps insertion order) maps a channel id to a
  reference. The exit handler, a closure of \<open>startStream\<close>, captures \<open>ch\<close>,
  \<open>retryCount\<close> and \<open>dir\<close>: they are the fields \<open>s_ch\<close>, \<open>s_retryCount\<close> and
  \<open>s_dir\<close> of the object here. The field \<open>inputUrl\<close> is the URL handed to ffmpeg (the
  current variant passes it to \<open>spawn\<close> without storing it).

  Of the \<open>ChildProcess\<close>, two facts matter (Node's \<^verbatim>\<open>lib/internal/child_process.js\<close>):
  \<open>proc_handle\<close> says that the process has not exited yet, and \<open>proc_killed\<close> is the
  property \<open>killed\<close>, which \<open>kill()\<close> sets when it has delivered a signal; it does
  not say that the process has terminated. \<open>kill()\<close> on an exited process does nothing
  and returns false.
\<close>

datatype signal = SIGTERM | SIGKILL

record streamState =
  s_ch :: string
  s_retryCount :: nat
  s_dir :: string
  start :: int
  lastAccess :: int
  inputUrl :: string
  intentionalStop :: bool
  proc_handle :: bool
  proc_killed :: bool

record totals =
  startTime :: int
  totalStarted :: nat
  totalStopped :: nat
  totalErrors :: nat
  bandwidth :: nat

text \<open>A pending \<open>setTimeout\<close>: the restart of a channel (with the retry count it passes
  to \<open>startStream\<close>) or the forced kill of the process of one state object.\<close>

datatype callback = Restart string nat | ForceKill nat

datatype log =
    PlaylistMissing string
  | M3UError m3u_error
  | Started string
  | Restarting string nat
  | StoppedManually string
  | StoppedUnexpectedly string
  | Exhausted string
  | Inactive string
  | DeletedFolder string
  | Demand string

record server =
  ROOT_DIR :: string
  active :: "(string \<times> nat) list"
  heap :: "streamState list"
  stats :: totals
  timers :: "(int \<times> callback) list"
  fs :: filesystem
  signals :: "(nat \<times> signal) list"
  console :: "log list"

definition heap_get :: "server \<Rightarrow> nat \<Rightarrow> streamState option" where
  "heap_get w r = (if r < length (heap w) then Some (heap w ! r) else None)"

definition heap_set :: "nat \<Rightarrow> streamState \<Rightarrow> server \<Rightarrow> server" where
  "heap_set r s w = w\<lparr>heap := (heap w)[r := s]\<rparr>"

definition console_log :: "log \<Rightarrow> server \<Rightarrow> server" where
  "console_log l w = w\<lparr>console := console w @ [l]\<rparr>"

definition setTimeout :: "int \<Rightarrow> callback \<Rightarrow> int \<Rightarrow> server \<Rightarrow> server" where
  "setTimeout now cb ms w = w\<lparr>timers := timers w @ [(now + ms, cb)]\<rparr>"

definition active_has :: "server \<Rightarrow> string \<Rightarrow> bool" where
  "active_has w ch = (map_of (active w) ch \<noteq> None)"

definition active_delete :: "string \<Rightarrow> server \<Rightarrow> server" where
  "active_delete ch w = w\<lparr>active := AList.delete ch (active w)\<rparr>"

definition proc_kill :: "nat \<Rightarrow> signal \<Rightarrow> server \<Rightarrow> server" where
  "proc_kill r sig w =
     (case heap_get w r of
        None \<Rightarrow> w
      | Some s \<Rightarrow>
          if proc_handle s
          then heap_set r (s\<lparr>proc_killed := True\<rparr>) (w\<lparr>signals := signals w @ [(r, sig)]\<rparr>)
          else w)"

definition set_intentionalStop :: "nat \<Rightarrow> server \<Rightarrow> server" where
  "set_intentionalStop r w =
     (case heap_get w r of
        None \<Rightarrow> w
      | Some s \<Rightarrow> heap_set r (s\<lparr>intentionalStop := True\<rparr>) w)"

text \<open>
  \<open>spawn_entry\<close> is \<open>startStream\<close> from \<open>getPaths\<close> to its end: create the working
  directory when it is missing, spawn ffmpeg, build the state object, register it, count
  the start. The argument list of ffmpeg is not modelled. \<open>fs.mkdirSync\<close> and \<open>spawn\<close>
  are taken to succeed, so \<open>startStream\<close> has no exceptional exit (the \<open>catch\<close> around
  it in the route of the predecessor, which counts \<open>totalErrors\<close>, is not reached), and the
  \<open>error\<close> event of the process is not modelled. Both readings of \<open>Date.now()\<close> in the
  object are the one \<open>now\<close>. \<open>broadcastLog\<close> writes to \<open>logClients\<close>, to which nothing
  in the source ever adds: it is left out.
\<close>

definition spawn_entry :: "int \<Rightarrow> string \<Rightarrow> nat \<Rightarrow> string \<Rightarrow> server \<Rightarrow> server" where
  "spawn_entry now ch retryCount url w =
     (let p = getPaths (ROOT_DIR w) ch;
          w1 = (if \<not> existsSync (fs w) (dir p) then w\<lparr>fs := (fs w)(dir p \<mapsto> Dir)\<rparr> else w);
          s = \<lparr> s_ch = ch, s_retryCount = retryCount, s_dir = dir p, start = now,
                lastAccess = now, inputUrl = url, intentionalStop = False,
                proc_handle = True, proc_killed = False \<rparr>
      in console_log (Started ch)
           (w1\<lparr>heap := heap w1 @ [s],
               active := AList.update ch (length (heap w1)) (active w1),
               stats := (stats w1)\<lparr>totalStarted := Suc (totalStarted (stats w1))\<rparr>\<rparr>))"

subsection \<open>\<open>startStream\<close>\<close>

text \<open>The two variants differ in the arguments of ffmpeg and in the wording of the log
  lines only: one definition serves both.\<close>

definition startStream :: "int \<Rightarrow> string \<Rightarrow> nat \<Rightarrow> server \<Rightarrow> server" where
  "startStream now ch retryCount w =
     (if active_has w ch then w
      else
        let m3uFile = path_join [PLAYLISTS_DIR (ROOT_DIR w), ch @ ''.m3u'']
        in if \<not> existsSync (fs w) m3uFile then console_log (PlaylistMissing ch) w
           else (case parseM3U (fs w) m3uFile of
                   Inl e \<Rightarrow> console_log (M3UError e) w
                 | Inr url \<Rightarrow> spawn_entry now ch retryCount url w))"

subsection \<open>\<open>stopStream\<close> and its forced-kill timer (predecessor only)\<close>

definition stopStream :: "int \<Rightarrow> string \<Rightarrow> server \<Rightarrow> bool \<times> server" where
  "stopStream now ch w =
     (case map_of (active w) ch of
        None \<Rightarrow> (False, w)
      | Some r \<Rightarrow>
          (True, setTimeout now (ForceKill r) 5000 (proc_kill r SIGTERM (set_intentionalStop r w))))"

text \<open>\<^verbatim>\<open>if (s.proc && !s.proc.killed) s.proc.kill('SIGKILL')\<close>, on the captured object.\<close>

definition force_kill :: "nat \<Rightarrow> server \<Rightarrow> server" where
  "force_kill r w =
     (case heap_get w r of
        None \<Rightarrow> w
      | Some s \<Rightarrow> if \<not> proc_killed s then proc_kill r SIGKILL w else w)"

subsection \<open>The exit observer\<close>

text \<open>
  The handler of the \<open>exit\<close> event of the process of state object \<open>r\<close>. Node has
  released the process handle when the event is emitted. The current variant schedules the
  restart first and removes the working directory only after an intentional stop.
\<close>

definition on_exit :: "int \<Rightarrow> nat \<Rightarrow> server \<Rightarrow> server" where
  "on_exit now r w =
     (case heap_get w r of
        None \<Rightarrow> w
      | Some s \<Rightarrow>
          let w0 = heap_set r (s\<lparr>proc_handle := False\<rparr>) w;
              w1 = (if \<not> intentionalStop s \<and> s_retryCount s < 3
                    then setTimeout now (Restart (s_ch s) (s_retryCount s + 1)) 5000
                           (console_log (Restarting (s_ch s) (s_retryCount s + 1)) w0)
                    else w0);
              w2 = active_delete (s_ch s) w1;
              w3 = w2\<lparr>stats := (stats w2)\<lparr>totalStopped := Suc (totalStopped (stats w2))\<rparr>\<rparr>
          in if intentionalStop s then w3\<lparr>fs := rm_rf (s_dir s) (fs w3)\<rparr> else w3)"

text \<open>The predecessor: \<open>safeDeleteFolder\<close> returns when \<open>fsp.access\<close> rejects, and
  removes the directory otherwise. Its exit handler awaits the removal, then decides on the
  restart; \<open>now\<close> is the time of that decision. The state object is out of the registry
  during the wait, so nothing else writes its flag: the handler is one transformer.\<close>

definition safeDeleteFolder :: "string \<Rightarrow> server \<Rightarrow> server" where
  "safeDeleteFolder d w =
     (if \<not> existsSync (fs w) d then w
      else console_log (DeletedFolder d) (w\<lparr>fs := rm_rf d (fs w)\<rparr>))"

definition on_exit_old :: "int \<Rightarrow> nat \<Rightarrow> server \<Rightarrow> server" where
  "on_exit_old now r w =
     (case heap_get w r of
        None \<Rightarrow> w
      | Some s \<Rightarrow>
          let w0 = heap_set r (s\<lparr>proc_handle := False\<rparr>) w;
              w1 = console_log (if intentionalStop s then StoppedManually (s_ch s)
                                else StoppedUnexpectedly (s_ch s)) w0;
              w2 = active_delete (s_ch s) w1;
              w3 = w2\<lparr>stats := (stats w2)\<lparr>totalStopped := Suc (totalStopped (stats w2))\<rparr>\<rparr>;
              w4 = safeDeleteFolder (s_dir s) w3
          in if \<not> intentionalStop s \<and> s_retryCount s < 3
             then setTimeout now (Restart (s_ch s) (s_retryCount s + 1)) 5000
                    (console_log (Restarting (s_ch s) (s_retryCount s + 1)) w4)
             else if \<not> intentionalStop s then console_log (Exhausted (s_ch s)) w4
             else w4)"

subsection \<open>The inactivity sweep\<close>

text \<open>The body of the \<open>for\<close> loop over the registry, for one entry, and the loop. The body
  never changes the registry itself (the exit arrives as a later event), so the loop runs
  over the entries as they are when it starts.\<close>

definition sweep_entry :: "int \<Rightarrow> string \<times> nat \<Rightarrow> server \<Rightarrow> server" where
  "sweep_entry now e w =
     (case heap_get w (snd e) of
        None \<Rightarrow> w
      | Some s \<Rightarrow>
          if now - lastAccess s > INACTIVITY_LIMIT
          then proc_kill (snd e) SIGTERM (set_intentionalStop (snd e) (console_log (Inactive (fst e)) w))
          else w)"

definition sweep :: "int \<Rightarrow> server \<Rightarrow> server" where
  "sweep now w = fold (sweep_entry now) (active w) w"

definition sweep_entry_old :: "int \<Rightarrow> string \<times> nat \<Rightarrow> server \<Rightarrow> server" where
  "sweep_entry_old now e w =
     (case heap_get w (snd e) of
        None \<Rightarrow> w
      | Some s \<Rightarrow>
          if now - lastAccess s > INACTIVITY_LIMIT
          then snd (stopStream now (fst e) (console_log (Inactive (fst e)) w))
          else w)"

definition sweep_old :: "int \<Rightarrow> server \<Rightarrow> server" where
  "sweep_old now w = fold (sweep_entry_old now) (active w) w"

subsection \<open>Timers\<close>

definition run_callback :: "int \<Rightarrow> callback \<Rightarrow> server \<Rightarrow> server" where
  "run_callback now cb w =
     (case cb of
        Restart ch n \<Rightarrow> startStream now ch n w
      | ForceKill r \<Rightarrow> force_kill r w)"

text \<open>The \<open>i\<close>-th pending timer fires: it leaves the list and its callback runs. A timer
  does not fire before it is due.\<close>

definition fire_timer :: "int \<Rightarrow> nat \<Rightarrow> server \<Rightarrow> server" where
  "fire_timer now i w =
     (if i < length (timers w) \<and> fst (timers w ! i) \<le> now
      then run_callback now (snd (timers w ! i))
             (w\<lparr>timers := take i (timers w) @ drop (Suc i) (timers w)\<rparr>)
      else w)"

subsection \<open>The manifest route\<close>

text \<open>The synchronous start of the route, after the id check: start the channel, or
  refresh \<open>lastAccess\<close> of its entry. The predecessor logs the demand first.\<close>

definition touch :: "int \<Rightarrow> string \<Rightarrow> server \<Rightarrow> server" where
  "touch now ch w =
     (case map_of (active w) ch of
        None \<Rightarrow> w
      | Some r \<Rightarrow>
          (case heap_get w r of
             None \<Rightarrow> w
           | Some s \<Rightarrow> heap_set r (s\<lparr>lastAccess := now\<rparr>) w))"

definition request_begin :: "int \<Rightarrow> string \<Rightarrow> server \<Rightarrow> server" where
  "request_begin now ch w =
     (if \<not> active_has w ch then startStream now ch 0 w else touch now ch w)"

definition request_begin_old :: "int \<Rightarrow> string \<Rightarrow> server \<Rightarrow> server" where
  "request_begin_old now ch w =
     (if \<not> active_has w ch then startStream now ch 0 (console_log (Demand ch) w)
      else touch now ch w)"

datatype response =
    Status400
  | Body string
  | Status202
  | Status503
  | SendFile string
  | Unhandled

text \<open>The current variant answers at once: the manifest when \<open>access\<close> and \<open>readFile\<close>
  succeed, else the placeholder manifest when it exists, else status 202. It has no waiting
  loop and does not touch \<open>stats.bandwidth\<close>.\<close>

definition manifest_route :: "int \<Rightarrow> string \<Rightarrow> server \<Rightarrow> response \<times> server" where
  "manifest_route now ch w =
     (if \<not> valid_channel ch then (Status400, w)
      else
        let w1 = request_begin now ch w
        in (case readFileSync (fs w1) (playlist (getPaths (ROOT_DIR w) ch)) of
              Some data \<Rightarrow> (Body data, w1)
            | None \<Rightarrow>
                let placeholder = path_join [ASSETS_DIR (ROOT_DIR w), ''loading.m3u8'']
                in if existsSync (fs w1) placeholder
                   then (case readFileSync (fs w1) placeholder of
                           Some data \<Rightarrow> (Body data, w1)
                         | None \<Rightarrow> (Unhandled, w1))
                   else (Status202, w1)))"

text \<open>
  The predecessor polls. Its handler is an \<open>async\<close> function that is suspended either on
  \<open>fsp.stat\<close> or on the timer of the current wait, or has returned. The \<open>close\<close> event of
  the request only clears \<open>clientConnected\<close>; the source calls no \<open>clearTimeout\<close>.
  \<open>polls\<close> counts the calls of \<open>fsp.stat\<close> (a ghost counter, not in the source).
\<close>

datatype suspended = AwaitStat | AwaitTimer nat | Returned

record waiter =
  w_playlist :: string
  waited :: nat
  delay :: nat
  clientConnected :: bool
  suspended :: suspended
  answer :: "response option"
  polls :: nat

text \<open>The loop condition, and what follows the loop when it fails.\<close>

definition loop_head :: "waiter \<Rightarrow> waiter" where
  "loop_head q =
     (if waited q < 15000 \<and> clientConnected q
      then q\<lparr>suspended := AwaitStat, polls := Suc (polls q)\<rparr>
      else if clientConnected q then q\<lparr>suspended := Returned, answer := Some Status503\<rparr>
      else q\<lparr>suspended := Returned\<rparr>)"

text \<open>\<open>fsp.stat\<close> settles: \<open>Some n\<close> when it resolves with size \<open>n\<close>, \<open>None\<close> when it
  rejects (the file does not exist yet).\<close>

definition on_stat :: "nat option \<Rightarrow> server \<times> waiter \<Rightarrow> server \<times> waiter" where
  "on_stat st x =
     (let w = fst x; q = snd x
      in case st of
           Some n \<Rightarrow>
             if n > 0
             then (w\<lparr>stats := (stats w)\<lparr>bandwidth := bandwidth (stats w) + n\<rparr>\<rparr>,
                   q\<lparr>suspended := Returned, answer := Some (SendFile (w_playlist q))\<rparr>)
             else (w, q\<lparr>suspended := AwaitTimer (delay q)\<rparr>)
         | None \<Rightarrow> (w, q\<lparr>suspended := AwaitTimer (delay q)\<rparr>))"

definition on_wait_done :: "waiter \<Rightarrow> waiter" where
  "on_wait_done q =
     loop_head (q\<lparr>waited := waited q + delay q,
                  delay := (if delay q < 3000 then delay q + 500 else delay q)\<rparr>)"

definition on_close :: "waiter \<Rightarrow> waiter" where
  "on_close q = q\<lparr>clientConnected := False\<rparr>"

datatype wevent = StatDone "nat option" | TimerFired | Closed

text \<open>One event of a request. An event that cannot occur in the current suspension
  (a timer firing while \<open>fsp.stat\<close> is pending, anything but \<open>close\<close> after the return)
  leaves the state as it is.\<close>

definition wstep :: "wevent \<Rightarrow> server \<times> waiter \<Rightarrow> server \<times> waiter" where
  "wstep e x =
     (case e of
        Closed \<Rightarrow> (fst x, on_close (snd x))
      | StatDone st \<Rightarrow> (if suspended (snd x) = AwaitStat then on_stat st x else x)
      | TimerFired \<Rightarrow>
          (case suspended (snd x) of
             AwaitTimer d \<Rightarrow> (fst x, on_wait_done (snd x))
           | _ \<Rightarrow> x))"

definition wrun :: "wevent list \<Rightarrow> server \<times> waiter \<Rightarrow> server \<times> waiter" where
  "wrun es x = fold wstep es x"

text \<open>The loop is entered with \<open>waited = 0\<close>, \<open>delay = 1000\<close> and a connected client;
  the route of the predecessor runs up to that first suspension.\<close>

definition start_waiter :: "string \<Rightarrow> waiter" where
  "start_waiter pl =
     loop_head \<lparr> w_playlist = pl, waited = 0, delay = 1000, clientConnected = True,
                 suspended = Returned, answer = None, polls = 0 \<rparr>"

definition manifest_route_old :: "int \<Rightarrow> string \<Rightarrow> server \<Rightarrow> (response + waiter) \<times> server" where
  "manifest_route_old now ch w =
     (if \<not> valid_channel ch then (Inl Status400, w)
      else (Inr (start_waiter (playlist (getPaths (ROOT_DIR w) ch))), request_begin_old now ch w))"

text \<open>A poll finds the manifest not ready when \<open>fsp.stat\<close> rejects or reports size 0.
  \<open>failed_polls\<close> is the run of events in which each poll of the list settles, not ready,
  and the wait after it runs out. \<open>poll_times\<close> lists the value of \<open>waited\<close> at the polls
  of the loop.\<close>

definition not_ready :: "nat option \<Rightarrow> bool" where
  "not_ready st = (case st of None \<Rightarrow> True | Some n \<Rightarrow> n = 0)"

definition failed_polls :: "nat option list \<Rightarrow> wevent list" where
  "failed_polls sts = concat (map (\<lambda>st. [StatDone st, TimerFired]) sts)"

definition poll_times :: "nat list" where
  "poll_times = [0, 1000, 2500, 4500, 7000, 10000, 13000]"

subsection \<open>Events of the server\<close>

datatype event = Request string | ProcExit nat | TimerDue nat | Sweep

text \<open>A process exits once: the \<open>exit\<close> event of an object whose handle is gone does
  not occur.\<close>

definition exits :: "nat \<Rightarrow> server \<Rightarrow> bool" where
  "exits r w = (case heap_get w r of None \<Rightarrow> False | Some s \<Rightarrow> proc_handle s)"

definition step :: "int \<times> event \<Rightarrow> server \<Rightarrow> server" where
  "step te w =
     (case snd te of
        Request ch \<Rightarrow> snd (manifest_route (fst te) ch w)
      | ProcExit r \<Rightarrow> (if exits r w then on_exit (fst te) r w else w)
      | TimerDue i \<Rightarrow> fire_timer (fst te) i w
      | Sweep \<Rightarrow> sweep (fst te) w)"

definition step_old :: "int \<times> event \<Rightarrow> server \<Rightarrow> server" where
  "step_old te w =
     (case snd te of
        Request ch \<Rightarrow> snd (manifest_route_old (fst te) ch w)
      | ProcExit r \<Rightarrow> (if exits r w then on_exit_old (fst te) r w else w)
      | TimerDue i \<Rightarrow> fire_timer (fst te) i w
      | Sweep \<Rightarrow> sweep_old (fst te) w)"

definition run :: "(int \<times> event) list \<Rightarrow> server \<Rightarrow> server" where
  "run es w = fold step es w"

definition run_old :: "(int \<times> event) list \<Rightarrow> server \<Rightarrow> server" where
  "run_old es w = fold step_old es w"

text \<open>
  Consecutive unintentional exits of the worker of one channel. \<open>crash\<close> is the exit
  event of the state object that the registry holds for the channel; \<open>restart_cycle\<close> is
  that exit at the first time of the pair, followed, at the second time, by the firing of
  the timer at the position where the exit observer appends one; \<open>lineage\<close> runs a list
  of such cycles.
\<close>

definition crash :: "int \<Rightarrow> string \<Rightarrow> server \<Rightarrow> server" where
  "crash now ch w =
     (case map_of (active w) ch of None \<Rightarrow> w | Some r \<Rightarrow> step (now, ProcExit r) w)"

definition crash_old :: "int \<Rightarrow> string \<Rightarrow> server \<Rightarrow> server" where
  "crash_old now ch w =
     (case map_of (active w) ch of None \<Rightarrow> w | Some r \<Rightarrow> step_old (now, ProcExit r) w)"

definition restart_cycle :: "int \<times> int \<Rightarrow> string \<Rightarrow> server \<Rightarrow> server" where
  "restart_cycle tt ch w = fire_timer (snd tt) (length (timers w)) (crash (fst tt) ch w)"

definition restart_cycle_old :: "int \<times> int \<Rightarrow> string \<Rightarrow> server \<Rightarrow> server" where
  "restart_cycle_old tt ch w = fire_timer (snd tt) (length (timers w)) (crash_old (fst tt) ch w)"

definition lineage :: "(int \<times> int) list \<Rightarrow> string \<Rightarrow> server \<Rightarrow> server" where
  "lineage tts ch w = fold (\<lambda>tt. restart_cycle tt ch) tts w"

definition lineage_old :: "(int \<times> int) list \<Rightarrow> string \<Rightarrow> server \<Rightarrow> server" where
  "lineage_old tts ch w = fold (\<lambda>tt. restart_cycle_old tt ch) tts w"

text \<open>The server after start-up: empty registry, counters at zero, no timer.\<close>

definition init_server :: "string \<Rightarrow> int \<Rightarrow> filesystem \<Rightarrow> server" where
  "init_server root t0 f =
     \<lparr> ROOT_DIR = root, active = [], heap = [],
       stats = \<lparr> startTime = t0, totalStarted = 0, totalStopped = 0, totalErrors = 0,
                 bandwidth = 0 \<rparr>,
       timers = [], fs = f, signals = [], console = [] \<rparr>"

subsection \<open>Source configuration, and a running example\<close>

text \<open>A channel is configured when its playlist file exists and \<open>parseM3U\<close> finds a URL
  in it: the two tests \<open>startStream\<close> makes before it spawns.\<close>

definition configured :: "server \<Rightarrow> string \<Rightarrow> bool" where
  "configured w ch =
     (let m3uFile = path_join [PLAYLISTS_DIR (ROOT_DIR w), ch @ ''.m3u'']
      in existsSync (fs w) m3uFile \<and>
         (case parseM3U (fs w) m3uFile of Inl e \<Rightarrow> False | Inr url \<Rightarrow> True))"

text \<open>The example of the specification: channel \<open>news1\<close>, whose configuration file holds
  one URL, on a server installed in \<open>/srv\<close> (a second file, for channel \<open>blank\<close>, holds a
  comment line only, and a third, for channel \<open>bom\<close>, a byte order mark, a comment line and
  a second comment line after a no-break space); the server after \<open>startStream\<close> for the channel, as a first start and
  as the start with retry count \<open>n\<close>; the same with a manifest that ffmpeg has written; and
  the same after \<open>stopStream\<close>, after the removal of the playlists directory, and with a
  placeholder manifest in the assets directory.\<close>

definition example_fs :: filesystem where
  "example_fs =
     (\<lambda>p. if p = ''/srv/playlists/news1.m3u'' then Some (File ''https://example.com/feed.m3u8'')
          else if p = ''/srv/playlists/blank.m3u'' then Some (File (''#EXTM3U'' @ [CHR 0x0A]))
          else if p = ''/srv/playlists/bom.m3u''
            then Some (File ([CHR 0xEF, CHR 0xBB, CHR 0xBF] @ ''#EXTM3U'' @
                             [CHR 0x0A, CHR 0xC2, CHR 0xA0] @ ''#note''))
          else None)"

definition example_server :: server where
  "example_server = init_server ''/srv'' 0 example_fs"

definition example_retry :: "nat \<Rightarrow> server" where
  "example_retry n = startStream 1000 ''news1'' n example_server"

definition example_running :: server where
  "example_running = example_retry 0"

definition example_streaming :: server where
  "example_streaming =
     example_running\<lparr>fs := (fs example_running)(''/srv/streams/news1/news1.m3u8'' := Some (File ''#EXTM3U''))\<rparr>"

definition example_stopping :: server where
  "example_stopping = snd (stopStream 130000 ''news1'' example_running)"

definition example_unplugged :: server where
  "example_unplugged = example_running\<lparr>fs := rm_rf ''/srv/playlists'' (fs example_running)\<rparr>"

definition example_placeholder :: server where
  "example_placeholder =
     example_running\<lparr>fs := (fs example_running)(''/srv/assets/loading.m3u8'' := Some (File ''#EXTM3U''))\<rparr>"

definition example_waiter :: waiter where
  "example_waiter = start_waiter ''/srv/streams/news1/news1.m3u8''"

text \<open>The registry entry of channel \<open>ch\<close> is the state object created last; its
  process runs, it has retry count \<open>k\<close>, its flag \<open>intentionalStop\<close> is not set, and its
  working directory is the one \<open>getPaths\<close> gives for the channel.\<close>

definition running_with :: "string \<Rightarrow> nat \<Rightarrow> server \<Rightarrow> bool" where
  "running_with ch k w =
     (case map_of (active w) ch of
        None \<Rightarrow> False
      | Some r \<Rightarrow>
          (case heap_get w r of
             None \<Rightarrow> False
           | Some s \<Rightarrow>
               Suc r = length (heap w) \<and> s_ch s = ch \<and> s_retryCount s = k \<and>
               \<not> intentionalStop s \<and> proc_handle s \<and>
               s_dir s = dir (getPaths (ROOT_DIR w) ch)))"

text \<open>The state object \<open>r\<close> exists and its flag \<open>intentionalStop\<close> is set.\<close>

definition stopped :: "nat \<Rightarrow> server \<Rightarrow> bool" where
  "stopped r w = (case heap_get w r of None \<Rightarrow> False | Some s \<Rightarrow> intentionalStop s)"

section \<open>Properties\<close>

subsection \<open>Evaluation and field lemmas\<close>

lemmas path_eval = path_join_def normalize_def isAbsolute_def STREAMS_DIR_def PLAYLISTS_DIR_def
  ASSETS_DIR_def getPaths_def

lemmas fs_eval = existsSync_def readFileSync_def parseM3U_def trim_def ws_unit_def
  white_space_utf8_def
  startsWith_hash_def below_def rm_rf_def

lemma touch_fields:
  "active (touch now ch w) = active w" "length (heap (touch now ch w)) = length (heap w)"
  "stats (touch now ch w) = stats w" "timers (touch now ch w) = timers w"
  "signals (touch now ch w) = signals w" "fs (touch now ch w) = fs w"
  "ROOT_DIR (touch now ch w) = ROOT_DIR w" "console (touch now ch w) = console w"
  by (simp_all add: touch_def heap_set_def split: option.splits)

lemma spawn_entry_fields:
  "length (heap (spawn_entry now ch n url w)) = Suc (length (heap w))"
  "active (spawn_entry now ch n url w) = AList.update ch (length (heap w)) (active w)"
  "stats (spawn_entry now ch n url w) = (stats w)\<lparr>totalStarted := Suc (totalStarted (stats w))\<rparr>"
  "timers (spawn_entry now ch n url w) = timers w"
  "signals (spawn_entry now ch n url w) = signals w"
  "ROOT_DIR (spawn_entry now ch n url w) = ROOT_DIR w"
  by (simp_all add: spawn_entry_def Let_def console_log_def)

lemma startStream_configured:
  "\<not> active_has w ch \<Longrightarrow> configured w ch \<Longrightarrow>
     \<exists>url. startStream now ch n w = spawn_entry now ch n url w"
  by (auto simp: startStream_def configured_def Let_def split: sum.splits)

lemma startStream_unconfigured:
  "\<not> active_has w ch \<Longrightarrow> \<not> configured w ch \<Longrightarrow>
     \<exists>l. (l = PlaylistMissing ch \<or> (\<exists>e. l = M3UError e)) \<and> startStream now ch n w = console_log l w"
  by (auto simp: startStream_def configured_def Let_def split: sum.splits)

lemma filter_update_fresh:
  "map_of al k = None \<Longrightarrow> length (filter (\<lambda>e. fst e = k) (AList.update k v al)) = 1"
  by (induction al) (auto split: if_splits)

lemma requests_active:
  "active_has w ch \<Longrightarrow>
     active (fold (\<lambda>t. request_begin t ch) ts w) = active w \<and>
     length (heap (fold (\<lambda>t. request_begin t ch) ts w)) = length (heap w) \<and>
     stats (fold (\<lambda>t. request_begin t ch) ts w) = stats w"
proof (induction ts arbitrary: w)
  case Nil
  then show ?case by simp
next
  case (Cons t ts)
  have a: "active_has (touch t ch w) ch"
    using Cons.prems by (simp add: active_has_def touch_fields)
  show ?case
    using Cons.prems Cons.IH [OF a] by (simp add: request_begin_def touch_fields)
qed

lemma requests_active_old:
  "active_has w ch \<Longrightarrow>
     active (fold (\<lambda>t. request_begin_old t ch) ts w) = active w \<and>
     length (heap (fold (\<lambda>t. request_begin_old t ch) ts w)) = length (heap w) \<and>
     stats (fold (\<lambda>t. request_begin_old t ch) ts w) = stats w"
proof (induction ts arbitrary: w)
  case Nil
  then show ?case by simp
next
  case (Cons t ts)
  have a: "active_has (touch t ch w) ch"
    using Cons.prems by (simp add: active_has_def touch_fields)
  show ?case
    using Cons.prems Cons.IH [OF a] by (simp add: request_begin_old_def touch_fields)
qed

lemma first_request:
  assumes "\<not> active_has w ch" and "configured w ch"
  shows "active_has (request_begin t ch w) ch \<and>
         length (heap (request_begin t ch w)) = Suc (length (heap w)) \<and>
         active (request_begin t ch w) = AList.update ch (length (heap w)) (active w) \<and>
         totalStarted (stats (request_begin t ch w)) = Suc (totalStarted (stats w))"
proof -
  obtain url where u: "startStream t ch 0 w = spawn_entry t ch 0 url w"
    using startStream_configured [OF assms] by blast
  show ?thesis
    using assms(1) by (simp add: request_begin_def u spawn_entry_fields active_has_def update_conv')
qed

lemma configured_console: "configured (console_log l w) ch = configured w ch"
  by (simp add: configured_def console_log_def)

lemma active_has_console: "active_has (console_log l w) ch = active_has w ch"
  by (simp add: active_has_def console_log_def)

lemma console_log_fields:
  "active (console_log l w) = active w" "heap (console_log l w) = heap w"
  "stats (console_log l w) = stats w" "timers (console_log l w) = timers w"
  "signals (console_log l w) = signals w" "fs (console_log l w) = fs w"
  "ROOT_DIR (console_log l w) = ROOT_DIR w" "console (console_log l w) = console w @ [l]"
  by (simp_all add: console_log_def)

lemma first_request_old:
  assumes "\<not> active_has w ch" and "configured w ch"
  shows "active_has (request_begin_old t ch w) ch \<and>
         length (heap (request_begin_old t ch w)) = Suc (length (heap w)) \<and>
         active (request_begin_old t ch w) = AList.update ch (length (heap w)) (active w) \<and>
         totalStarted (stats (request_begin_old t ch w)) = Suc (totalStarted (stats w))"
proof -
  let ?w = "console_log (Demand ch) w"
  have a: "\<not> active_has ?w ch" "configured ?w ch"
    using assms by (simp_all add: configured_console active_has_console)
  obtain url where u: "startStream t ch 0 ?w = spawn_entry t ch 0 url ?w"
    using startStream_configured [OF a] by blast
  show ?thesis
    using assms(1)
    by (simp add: request_begin_old_def u spawn_entry_fields active_has_def update_conv'
        console_log_fields)
qed

lemma example_server_eval:
  "\<not> active_has example_server ''news1''" "configured example_server ''news1''"
  by (simp_all add: example_server_def init_server_def example_fs_def active_has_def configured_def
      path_eval fs_eval)

lemma example_retry_eval:
  "example_retry n =
     \<lparr> ROOT_DIR = ''/srv'', active = [(''news1'', 0)],
       heap = [\<lparr> s_ch = ''news1'', s_retryCount = n, s_dir = ''/srv/streams/news1'', start = 1000,
                lastAccess = 1000, inputUrl = ''https://example.com/feed.m3u8'',
                intentionalStop = False, proc_handle = True, proc_killed = False \<rparr>],
       stats = \<lparr> startTime = 0, totalStarted = 1, totalStopped = 0, totalErrors = 0, bandwidth = 0 \<rparr>,
       timers = [], fs = example_fs(''/srv/streams/news1'' \<mapsto> Dir), signals = [],
       console = [Started ''news1''] \<rparr>"
proof -
  have m: "path_join [PLAYLISTS_DIR ''/srv'', ''news1.m3u''] = ''/srv/playlists/news1.m3u''"
    by (simp add: path_eval)
  have p: "parseM3U example_fs ''/srv/playlists/news1.m3u'' = Inr ''https://example.com/feed.m3u8''"
    by (simp add: example_fs_def fs_eval)
  have e: "existsSync example_fs ''/srv/playlists/news1.m3u''" "\<not> existsSync example_fs ''/srv/streams/news1''"
    by (simp_all add: example_fs_def existsSync_def)
  have g: "dir (getPaths ''/srv'' ''news1'') = ''/srv/streams/news1''"
    by (simp add: path_eval)
  show ?thesis
    by (simp add: example_retry_def example_server_def init_server_def startStream_def
        active_has_def m p e g spawn_entry_def console_log_def Let_def)
qed

lemmas example_running_eval = example_retry_eval [of 0, folded example_running_def]

lemma on_exit_timers:
  "heap_get w r = Some s \<Longrightarrow>
     timers (on_exit now r w) =
       (if \<not> intentionalStop s \<and> s_retryCount s < 3
        then timers w @ [(now + 5000, Restart (s_ch s) (s_retryCount s + 1))] else timers w)"
  "heap_get w r = Some s \<Longrightarrow>
     timers (on_exit_old now r w) =
       (if \<not> intentionalStop s \<and> s_retryCount s < 3
        then timers w @ [(now + 5000, Restart (s_ch s) (s_retryCount s + 1))] else timers w)"
  by (simp_all add: on_exit_def on_exit_old_def Let_def setTimeout_def console_log_def
      active_delete_def heap_set_def safeDeleteFolder_def)

lemma on_exit_active:
  "heap_get w r = Some s \<Longrightarrow> active (on_exit now r w) = AList.delete (s_ch s) (active w)"
  "heap_get w r = Some s \<Longrightarrow> active (on_exit_old now r w) = AList.delete (s_ch s) (active w)"
  by (simp_all add: on_exit_def on_exit_old_def Let_def setTimeout_def console_log_def
      active_delete_def heap_set_def safeDeleteFolder_def)

lemma on_exit_fs:
  "heap_get w r = Some s \<Longrightarrow>
     fs (on_exit now r w) = (if intentionalStop s then rm_rf (s_dir s) (fs w) else fs w)"
  "heap_get w r = Some s \<Longrightarrow>
     fs (on_exit_old now r w) =
       (if existsSync (fs w) (s_dir s) then rm_rf (s_dir s) (fs w) else fs w)"
  by (simp_all add: on_exit_def on_exit_old_def Let_def setTimeout_def console_log_def
      active_delete_def heap_set_def safeDeleteFolder_def existsSync_def)

lemma on_exit_stats:
  "heap_get w r = Some s \<Longrightarrow>
     stats (on_exit now r w) = (stats w)\<lparr>totalStopped := Suc (totalStopped (stats w))\<rparr>"
  "heap_get w r = Some s \<Longrightarrow>
     stats (on_exit_old now r w) = (stats w)\<lparr>totalStopped := Suc (totalStopped (stats w))\<rparr>"
  by (simp_all add: on_exit_def on_exit_old_def Let_def setTimeout_def console_log_def
      active_delete_def heap_set_def safeDeleteFolder_def)

lemma fire_last_timer:
  "timers w1 = ts @ [(d, cb)] \<Longrightarrow> d \<le> t \<Longrightarrow>
     fire_timer t (length ts) w1 = run_callback t cb (w1\<lparr>timers := ts\<rparr>)"
  by (simp add: fire_timer_def)

lemma startStream_new_entry:
  assumes "\<not> active_has w ch" and "configured w ch"
  shows "\<exists>s'. heap (startStream t ch k w) = heap w @ [s'] \<and> s_retryCount s' = k \<and>
              s_ch s' = ch \<and> \<not> intentionalStop s' \<and>
              map_of (active (startStream t ch k w)) ch = Some (length (heap w))"
proof -
  obtain url where u: "startStream t ch k w = spawn_entry t ch k url w"
    using startStream_configured [OF assms] by blast
  show ?thesis
    by (simp add: u spawn_entry_def Let_def console_log_def update_conv')
qed

lemma active_has_timers: "active_has (w\<lparr>timers := ts\<rparr>) ch = active_has w ch"
  by (simp add: active_has_def)

lemma configured_timers: "configured (w\<lparr>timers := ts\<rparr>) ch = configured w ch"
  by (simp add: configured_def)

lemma example_stopping_eval:
  "example_stopping =
     \<lparr> ROOT_DIR = ''/srv'', active = [(''news1'', 0)],
       heap = [\<lparr> s_ch = ''news1'', s_retryCount = 0, s_dir = ''/srv/streams/news1'', start = 1000,
                lastAccess = 1000, inputUrl = ''https://example.com/feed.m3u8'',
                intentionalStop = True, proc_handle = True, proc_killed = True \<rparr>],
       stats = \<lparr> startTime = 0, totalStarted = 1, totalStopped = 0, totalErrors = 0, bandwidth = 0 \<rparr>,
       timers = [(135000, ForceKill 0)], fs = example_fs(''/srv/streams/news1'' \<mapsto> Dir),
       signals = [(0, SIGTERM)], console = [Started ''news1''] \<rparr>"
  by (simp add: example_stopping_def example_running_eval stopStream_def set_intentionalStop_def
      proc_kill_def setTimeout_def heap_get_def heap_set_def)

lemma example_unconfigured:
  "\<not> active_has example_server ch" "\<not> configured example_server ''sport''"
  "\<not> configured example_server ''blank''"
  "active_has example_unplugged ''news1''" "\<not> configured example_unplugged ''news1''"
  "\<not> configured example_server ''bom''"
  by (simp_all add: example_server_def init_server_def example_fs_def active_has_def
      configured_def path_eval fs_eval example_unplugged_def example_running_eval)

lemma failed_round:
  "suspended q = AwaitStat \<Longrightarrow> not_ready st \<Longrightarrow>
     wrun (StatDone st # TimerFired # es) (w, q) = wrun es (w, on_wait_done q)"
  by (auto simp: wrun_def wstep_def on_stat_def not_ready_def on_wait_done_def loop_head_def
      split: option.splits)

lemma wrun_append: "wrun (es @ es2) x = wrun es2 (wrun es x)"
  by (simp add: wrun_def)

lemma failed_polls_snoc: "failed_polls (sts @ [st]) = failed_polls sts @ [StatDone st, TimerFired]"
  by (simp add: failed_polls_def)

lemma below_seven:
  "k < 7 \<Longrightarrow> k = 0 \<or> k = Suc 0 \<or> k = Suc (Suc 0) \<or> k = Suc (Suc (Suc 0)) \<or>
     k = Suc (Suc (Suc (Suc 0))) \<or> k = Suc (Suc (Suc (Suc (Suc 0)))) \<or>
     k = Suc (Suc (Suc (Suc (Suc (Suc 0)))))"
  by arith

lemma round_state:
  assumes "k < 7"
  shows "(on_wait_done ^^ k) (start_waiter pl) =
           \<lparr> w_playlist = pl, waited = poll_times ! k, delay = min 3000 (1000 + 500 * k),
             clientConnected = True, suspended = AwaitStat, answer = None, polls = Suc k \<rparr>"
  using below_seven [OF assms]
  by (elim disjE) (simp_all add: start_waiter_def loop_head_def on_wait_done_def poll_times_def)

lemma round_state_last:
  "(on_wait_done ^^ 7) (start_waiter pl) =
     \<lparr> w_playlist = pl, waited = 16000, delay = 3000, clientConnected = True,
       suspended = Returned, answer = Some Status503, polls = 7 \<rparr>"
proof -
  have e: "(7::nat) = Suc (Suc (Suc (Suc (Suc (Suc (Suc 0))))))"
    by simp
  show ?thesis
    unfolding e by (simp add: start_waiter_def loop_head_def on_wait_done_def)
qed

lemma failed_rounds:
  "list_all not_ready sts \<Longrightarrow> length sts \<le> 7 \<Longrightarrow>
     wrun (failed_polls sts) (w, start_waiter pl) = (w, (on_wait_done ^^ length sts) (start_waiter pl))"
proof (induction sts rule: rev_induct)
  case Nil
  then show ?case by (simp add: failed_polls_def wrun_def)
next
  case (snoc st sts)
  then have k: "length sts < 7" and nr: "not_ready st" and rest: "list_all not_ready sts"
    by simp_all
  have susp: "suspended ((on_wait_done ^^ length sts) (start_waiter pl)) = AwaitStat"
    by (simp add: round_state [OF k])
  have "wrun (failed_polls (sts @ [st])) (w, start_waiter pl) =
          wrun [StatDone st, TimerFired] (w, (on_wait_done ^^ length sts) (start_waiter pl))"
    using snoc.IH [OF rest] k by (simp add: failed_polls_snoc wrun_append)
  also have "\<dots> = wrun [] (w, on_wait_done ((on_wait_done ^^ length sts) (start_waiter pl)))"
    by (rule failed_round [OF susp nr])
  finally show ?case by (simp add: wrun_def)
qed

lemma request_begin_bandwidth:
  "bandwidth (stats (request_begin now ch w)) = bandwidth (stats w)"
  by (simp add: request_begin_def startStream_def touch_fields console_log_fields Let_def
      spawn_entry_fields split: sum.splits)

lemma request_begin_ROOT: "ROOT_DIR (request_begin now ch w) = ROOT_DIR w"
  by (simp add: request_begin_def startStream_def touch_fields console_log_fields Let_def
      spawn_entry_fields split: sum.splits)

lemma example_streaming_eval:
  "example_streaming =
     \<lparr> ROOT_DIR = ''/srv'', active = [(''news1'', 0)],
       heap = [\<lparr> s_ch = ''news1'', s_retryCount = 0, s_dir = ''/srv/streams/news1'', start = 1000,
                lastAccess = 1000, inputUrl = ''https://example.com/feed.m3u8'',
                intentionalStop = False, proc_handle = True, proc_killed = False \<rparr>],
       stats = \<lparr> startTime = 0, totalStarted = 1, totalStopped = 0, totalErrors = 0, bandwidth = 0 \<rparr>,
       timers = [],
       fs = (example_fs(''/srv/streams/news1'' \<mapsto> Dir))
              (''/srv/streams/news1/news1.m3u8'' \<mapsto> File ''#EXTM3U''),
       signals = [], console = [Started ''news1''] \<rparr>"
  by (simp add: example_streaming_def example_running_eval)

lemma valid_news1: "valid_channel ''news1''"
  by (simp add: valid_channel_def is_word_char_def)

lemma news1_playlist: "playlist (getPaths ''/srv'' ''news1'') = ''/srv/streams/news1/news1.m3u8''"
  by (simp add: path_eval)

lemma placeholder_path: "path_join [ASSETS_DIR ''/srv'', ''loading.m3u8''] = ''/srv/assets/loading.m3u8''"
  by (simp add: path_eval)

lemma closed_step_idle:
  assumes "\<not> clientConnected q" and "suspended q \<noteq> AwaitStat"
  shows "\<exists>q'. wstep e (w, q) = (w, q') \<and> \<not> clientConnected q' \<and> suspended q' \<noteq> AwaitStat \<and>
              answer q' = answer q \<and> polls q' = polls q"
  using assms
  by (cases e; cases "suspended q")
     (simp_all add: wstep_def on_close_def on_wait_done_def loop_head_def)

lemma closed_run_idle:
  "\<not> clientConnected q \<Longrightarrow> suspended q \<noteq> AwaitStat \<Longrightarrow>
     fst (wrun es (w, q)) = w \<and> answer (snd (wrun es (w, q))) = answer q \<and>
     polls (snd (wrun es (w, q))) = polls q"
proof (induction es arbitrary: q)
  case Nil
  then show ?case by (simp add: wrun_def)
next
  case (Cons e es)
  obtain q' where s: "wstep e (w, q) = (w, q')" "\<not> clientConnected q'" "suspended q' \<noteq> AwaitStat"
      "answer q' = answer q" "polls q' = polls q"
    using closed_step_idle [OF Cons.prems] by blast
  have "wrun (e # es) (w, q) = wrun es (w, q')"
    by (simp add: wrun_def s(1))
  then show ?case
    using Cons.IH [OF s(2,3)] s(4,5) by simp
qed

lemma closed_step_stat:
  assumes "\<not> clientConnected q" and "suspended q = AwaitStat"
  shows "(\<exists>q'. wstep e (w, q) = (w, q') \<and> \<not> clientConnected q' \<and> suspended q' = AwaitStat \<and>
               answer q' = answer q \<and> polls q' = polls q \<and> w_playlist q' = w_playlist q) \<or>
         (\<exists>w' q'. wstep e (w, q) = (w', q') \<and> \<not> clientConnected q' \<and> suspended q' \<noteq> AwaitStat \<and>
               (answer q' = answer q \<or> answer q' = Some (SendFile (w_playlist q))) \<and>
               polls q' = polls q)"
  using assms
  by (cases e) (auto simp: wstep_def on_close_def on_stat_def split: option.splits)

lemma closed_run_stat:
  "\<not> clientConnected q \<Longrightarrow> suspended q = AwaitStat \<Longrightarrow>
     (answer (snd (wrun es (w, q))) = answer q \<or>
      answer (snd (wrun es (w, q))) = Some (SendFile (w_playlist q))) \<and>
     polls (snd (wrun es (w, q))) = polls q"
proof (induction es arbitrary: q)
  case Nil
  then show ?case by (simp add: wrun_def)
next
  case (Cons e es)
  from closed_step_stat [OF Cons.prems, of e w] show ?case
  proof
    assume "\<exists>q'. wstep e (w, q) = (w, q') \<and> \<not> clientConnected q' \<and> suspended q' = AwaitStat \<and>
               answer q' = answer q \<and> polls q' = polls q \<and> w_playlist q' = w_playlist q"
    then obtain q' where s: "wstep e (w, q) = (w, q')" "\<not> clientConnected q'"
        "suspended q' = AwaitStat" "answer q' = answer q" "polls q' = polls q"
        "w_playlist q' = w_playlist q"
      by blast
    have "wrun (e # es) (w, q) = wrun es (w, q')"
      by (simp add: wrun_def s(1))
    then show ?thesis
      using Cons.IH [OF s(2,3)] s(4,5,6) by simp
  next
    assume "\<exists>w' q'. wstep e (w, q) = (w', q') \<and> \<not> clientConnected q' \<and> suspended q' \<noteq> AwaitStat \<and>
               (answer q' = answer q \<or> answer q' = Some (SendFile (w_playlist q))) \<and>
               polls q' = polls q"
    then obtain w' q' where s: "wstep e (w, q) = (w', q')" "\<not> clientConnected q'"
        "suspended q' \<noteq> AwaitStat"
        "answer q' = answer q \<or> answer q' = Some (SendFile (w_playlist q))" "polls q' = polls q"
      by blast
    have "wrun (e # es) (w, q) = wrun es (w', q')"
      by (simp add: wrun_def s(1))
    then show ?thesis
      using closed_run_idle [OF s(2,3), of es w'] s(4,5) by auto
  qed
qed

lemma example_waiter_eval:
  "example_waiter =
     \<lparr> w_playlist = ''/srv/streams/news1/news1.m3u8'', waited = 0, delay = 1000,
       clientConnected = True, suspended = AwaitStat, answer = None, polls = 1 \<rparr>"
  by (simp add: example_waiter_def start_waiter_def loop_head_def)

lemmas prim_defs = heap_get_def heap_set_def console_log_def setTimeout_def active_delete_def
  proc_kill_def set_intentionalStop_def

lemma stopped_prims:
  "stopped r w \<Longrightarrow> stopped r (console_log l w)"
  "stopped r w \<Longrightarrow> stopped r (setTimeout now cb ms w)"
  "stopped r w \<Longrightarrow> stopped r (active_delete ch w)"
  "stopped r w \<Longrightarrow> stopped r (proc_kill r' sig w)"
  "stopped r w \<Longrightarrow> stopped r (set_intentionalStop r' w)"
  "stopped r w \<Longrightarrow> stopped r (touch now ch w)"
  "stopped r w \<Longrightarrow> stopped r (force_kill r' w)"
  "stopped r w \<Longrightarrow> stopped r (spawn_entry now ch n url w)"
  by (auto simp: stopped_def prim_defs touch_def force_kill_def spawn_entry_def Let_def
      nth_list_update nth_append split: option.splits if_splits)

lemma stopped_startStream: "stopped r w \<Longrightarrow> stopped r (startStream now ch n w)"
  by (simp add: startStream_def Let_def stopped_prims split: sum.splits)

lemma stopped_stopStream: "stopped r w \<Longrightarrow> stopped r (snd (stopStream now ch w))"
  by (simp add: stopStream_def stopped_prims split: option.splits)

lemma stopped_fields:
  "stopped r (w\<lparr>stats := st\<rparr>) = stopped r w"
  "stopped r (w\<lparr>fs := f\<rparr>) = stopped r w"
  "stopped r (w\<lparr>timers := ts\<rparr>) = stopped r w"
  by (simp_all add: stopped_def heap_get_def)

lemma stopped_heap_set:
  "stopped r w \<Longrightarrow> heap_get w r' = Some s \<Longrightarrow> stopped r (heap_set r' (s\<lparr>proc_handle := b\<rparr>) w)"
  by (auto simp: stopped_def prim_defs nth_list_update split: if_splits)

lemma stopped_on_exit:
  "stopped r w \<Longrightarrow> stopped r (on_exit now r' w)"
  "stopped r w \<Longrightarrow> stopped r (on_exit_old now r' w)"
  by (auto simp: on_exit_def on_exit_old_def Let_def safeDeleteFolder_def stopped_prims
      stopped_fields stopped_heap_set split: option.splits)

lemma stopped_sweep_entry:
  "stopped r w \<Longrightarrow> stopped r (sweep_entry now e w)"
  "stopped r w \<Longrightarrow> stopped r (sweep_entry_old now e w)"
  by (simp_all add: sweep_entry_def sweep_entry_old_def stopped_prims stopped_stopStream
      split: option.splits)

lemma stopped_fold_sweep:
  "stopped r w \<Longrightarrow> stopped r (fold (sweep_entry now) al w)"
  "stopped r w \<Longrightarrow> stopped r (fold (sweep_entry_old now) al w)"
  by (induction al arbitrary: w) (simp_all add: stopped_sweep_entry)

lemma stopped_fire_timer: "stopped r w \<Longrightarrow> stopped r (fire_timer now i w)"
  by (simp add: fire_timer_def run_callback_def stopped_startStream stopped_prims stopped_fields
      split: callback.splits)

lemma stopped_routes:
  "stopped r w \<Longrightarrow> stopped r (snd (manifest_route now ch w))"
  "stopped r w \<Longrightarrow> stopped r (snd (manifest_route_old now ch w))"
  by (simp_all add: manifest_route_def manifest_route_old_def request_begin_def
      request_begin_old_def Let_def stopped_startStream stopped_prims split: option.splits)

lemma stopped_step:
  "stopped r w \<Longrightarrow> stopped r (step te w)"
  "stopped r w \<Longrightarrow> stopped r (step_old te w)"
  by (simp_all add: step_def step_old_def sweep_def sweep_old_def stopped_routes stopped_on_exit
      stopped_fire_timer stopped_fold_sweep split: event.splits)

lemma stopped_run:
  "stopped r w \<Longrightarrow> stopped r (run es w)"
  "stopped r w \<Longrightarrow> stopped r (run_old es w)"
  by (induction es arbitrary: w) (simp_all add: run_def run_old_def stopped_step)

lemma stopped_exit_no_restart:
  "stopped r w \<Longrightarrow> timers (on_exit t r w) = timers w"
  "stopped r w \<Longrightarrow> timers (on_exit_old t r w) = timers w"
  by (auto simp: stopped_def on_exit_timers split: option.splits)

lemma sweep_entry_keeps:
  "heap_get w r = Some s \<Longrightarrow>
     \<exists>s'. heap_get (sweep_entry now e w) r = Some s' \<and> lastAccess s' = lastAccess s \<and>
          proc_handle s' = proc_handle s"
  "heap_get w r = Some s \<Longrightarrow>
     \<exists>s'. heap_get (sweep_entry_old now e w) r = Some s' \<and> lastAccess s' = lastAccess s \<and>
          proc_handle s' = proc_handle s"
  by (auto simp: sweep_entry_def sweep_entry_old_def stopStream_def prim_defs nth_list_update
      split: option.splits if_splits)

lemma sweep_entry_frame:
  "active (sweep_entry now e w) = active w"
  "active (sweep_entry_old now e w) = active w"
  "set (signals w) \<subseteq> set (signals (sweep_entry now e w))"
  "set (signals w) \<subseteq> set (signals (sweep_entry_old now e w))"
  by (auto simp: sweep_entry_def sweep_entry_old_def stopStream_def prim_defs
      split: option.splits if_splits)

lemma fold_sweep_signals:
  "set (signals w) \<subseteq> set (signals (fold (sweep_entry now) al w))"
  "set (signals w) \<subseteq> set (signals (fold (sweep_entry_old now) al w))"
proof (induction al arbitrary: w)
  case Nil
  {
    case 1
    show ?case by simp
  next
    case 2
    show ?case by simp
  }
next
  case (Cons e al)
  {
    case 1
    show ?case
      using sweep_entry_frame(3) [of w now e] Cons.IH(1) [of "sweep_entry now e w"] by auto
  next
    case 2
    show ?case
      using sweep_entry_frame(4) [of w now e] Cons.IH(2) [of "sweep_entry_old now e w"] by auto
  }
qed

lemma sweep_entry_idle:
  assumes "heap_get w r = Some s" and "now - lastAccess s > INACTIVITY_LIMIT"
  shows "sweep_entry now (ch, r) w =
           proc_kill r SIGTERM (set_intentionalStop r (console_log (Inactive ch) w))"
    and "stopped r (set_intentionalStop r (console_log (Inactive ch) w))"
    and "stopped r (sweep_entry now (ch, r) w)"
    and "proc_handle s \<Longrightarrow> (r, SIGTERM) \<in> set (signals (sweep_entry now (ch, r) w))"
  using assms
  by (auto simp: sweep_entry_def stopped_def prim_defs nth_list_update split: option.splits if_splits)

lemma sweep_entry_old_idle:
  assumes "heap_get w r = Some s" and "now - lastAccess s > INACTIVITY_LIMIT"
    and "map_of (active w) ch = Some r"
  shows "sweep_entry_old now (ch, r) w =
           setTimeout now (ForceKill r) 5000
             (proc_kill r SIGTERM (set_intentionalStop r (console_log (Inactive ch) w)))"
    and "stopped r (sweep_entry_old now (ch, r) w)"
    and "proc_handle s \<Longrightarrow> (r, SIGTERM) \<in> set (signals (sweep_entry_old now (ch, r) w))"
  using assms
  by (auto simp: sweep_entry_old_def stopStream_def stopped_def prim_defs nth_list_update
      split: option.splits if_splits)

lemma fold_sweep_idle:
  "(ch, r) \<in> set al \<Longrightarrow> heap_get w r = Some s \<Longrightarrow> now - lastAccess s > INACTIVITY_LIMIT \<Longrightarrow>
     proc_handle s \<Longrightarrow>
     stopped r (fold (sweep_entry now) al w) \<and>
     (r, SIGTERM) \<in> set (signals (fold (sweep_entry now) al w))"
proof (induction al arbitrary: w s)
  case Nil
  then show ?case by simp
next
  case (Cons e al)
  show ?case
  proof (cases "e = (ch, r)")
    case True
    have "stopped r (sweep_entry now e w)" "(r, SIGTERM) \<in> set (signals (sweep_entry now e w))"
      using sweep_entry_idle(3,4) [OF Cons.prems(2,3)] Cons.prems(4) True by simp_all
    then show ?thesis
      using stopped_fold_sweep(1) [of r "sweep_entry now e w" now al]
        fold_sweep_signals(1) [of "sweep_entry now e w" now al] by auto
  next
    case False
    then have m: "(ch, r) \<in> set al" using Cons.prems(1) by simp
    obtain s' where k: "heap_get (sweep_entry now e w) r = Some s'" "lastAccess s' = lastAccess s"
        "proc_handle s' = proc_handle s"
      using sweep_entry_keeps(1) [OF Cons.prems(2)] by blast
    show ?thesis
      using Cons.IH [OF m k(1)] k(2,3) Cons.prems(3,4) by simp
  qed
qed

lemma fold_sweep_old_idle:
  "(ch, r) \<in> set al \<Longrightarrow> heap_get w r = Some s \<Longrightarrow> now - lastAccess s > INACTIVITY_LIMIT \<Longrightarrow>
     proc_handle s \<Longrightarrow> map_of (active w) ch = Some r \<Longrightarrow>
     stopped r (fold (sweep_entry_old now) al w) \<and>
     (r, SIGTERM) \<in> set (signals (fold (sweep_entry_old now) al w))"
proof (induction al arbitrary: w s)
  case Nil
  then show ?case by simp
next
  case (Cons e al)
  show ?case
  proof (cases "e = (ch, r)")
    case True
    have "stopped r (sweep_entry_old now e w)"
      "(r, SIGTERM) \<in> set (signals (sweep_entry_old now e w))"
      using sweep_entry_old_idle(2,3) [OF Cons.prems(2,3,5)] Cons.prems(4) True by simp_all
    then show ?thesis
      using stopped_fold_sweep(2) [of r "sweep_entry_old now e w" now al]
        fold_sweep_signals(2) [of "sweep_entry_old now e w" now al] by auto
  next
    case False
    then have m: "(ch, r) \<in> set al" using Cons.prems(1) by simp
    obtain s' where k: "heap_get (sweep_entry_old now e w) r = Some s'"
        "lastAccess s' = lastAccess s" "proc_handle s' = proc_handle s"
      using sweep_entry_keeps(2) [OF Cons.prems(2)] by blast
    have a: "map_of (active (sweep_entry_old now e w)) ch = Some r"
      using Cons.prems(5) by (simp add: sweep_entry_frame)
    show ?thesis
      using Cons.IH [OF m k(1) _ _ a] k(2,3) Cons.prems(3,4) by simp
  qed
qed

lemma stopStream_live:
  assumes "map_of (active w) ch = Some r" and "heap_get w r = Some s" and "proc_handle s"
  shows "stopStream now ch w =
           (True, w\<lparr>heap := (heap w)[r := s\<lparr>intentionalStop := True, proc_killed := True\<rparr>],
                    signals := signals w @ [(r, SIGTERM)],
                    timers := timers w @ [(now + 5000, ForceKill r)]\<rparr>)"
  using assms by (auto simp: stopStream_def prim_defs split: if_splits)

lemma force_kill_after_signal:
  "heap_get w r = Some s \<Longrightarrow> proc_killed s \<Longrightarrow> force_kill r w = w"
  by (simp add: force_kill_def)

lemma force_kill_target:
  "r' \<noteq> r \<Longrightarrow> heap_get (force_kill r w) r' = heap_get w r'"
  "set (signals (force_kill r w)) \<subseteq> set (signals w) \<union> {(r, SIGKILL)}"
  by (auto simp: force_kill_def prim_defs split: option.splits if_splits)

lemma split_on_nonempty: "split_on d s \<noteq> []"
  by (induction s) (auto split: list.splits)

lemma split_on_free: "x \<in> set (split_on d s) \<Longrightarrow> d \<notin> set x"
  by (induction s arbitrary: x) (auto split: list.splits if_splits)

lemma split_on_none: "d \<notin> set s \<Longrightarrow> split_on d s = [s]"
  by (induction s) auto

lemma split_on_append: "split_on d (a @ d # b) = split_on d a @ split_on d b"
  by (induction a) (auto split: list.splits simp: split_on_nonempty)

lemma join_with_snoc: "xs \<noteq> [] \<Longrightarrow> join_with d (xs @ [y]) = join_with d xs @ d @ y"
  by (induction d xs rule: join_with.induct) auto

lemma split_join:
  "xs \<noteq> [] \<Longrightarrow> \<forall>x \<in> set xs. d \<notin> set x \<Longrightarrow> split_on d (join_with [d] xs) = xs"
proof (induction "[d]" xs rule: join_with.induct)
  case 1
  then show ?case by simp
next
  case (2 x)
  then show ?case by (simp add: split_on_none)
next
  case (3 x y ys)
  then show ?case by (simp add: split_on_append split_on_none)
qed

lemma normalizeString_plain:
  "list_all plain_segment acc \<Longrightarrow> \<forall>x \<in> set xs. CHR ''/'' \<notin> set x \<Longrightarrow>
     list_all plain_segment (normalizeString False acc xs)"
  by (induction xs arbitrary: acc) (auto simp: plain_segment_def split: list.splits)

lemma normalizeString_id:
  "list_all plain_segment xs \<Longrightarrow> normalizeString a acc xs = rev acc @ xs"
  by (induction xs arbitrary: acc) (auto simp: plain_segment_def)

lemma normalizeString_snoc:
  "plain_segment y \<Longrightarrow> normalizeString a acc (xs @ [y]) = normalizeString a acc xs @ [y]"
  by (induction xs arbitrary: acc) (auto simp: plain_segment_def split: list.splits)

lemma join_with_nonempty: "list_all plain_segment S \<Longrightarrow> S \<noteq> [] \<Longrightarrow> join_with d S \<noteq> []"
  by (induction d S rule: join_with.induct) (auto simp: plain_segment_def)

lemma plain_last: "plain_segment y \<Longrightarrow> y \<noteq> [] \<and> last y \<noteq> CHR ''/''"
  by (metis last_in_set plain_segment_def)

lemma join_with_snoc2:
  "xs \<noteq> [] \<Longrightarrow> join_with d (xs @ [y, z]) = join_with d xs @ d @ y @ d @ z"
  using join_with_snoc [of "xs @ [y]" d z] join_with_snoc [of xs d y] by simp

lemma path_join_plain:
  assumes S: "list_all plain_segment S" "S \<noteq> []" and y: "plain_segment y"
  shows "path_join [CHR ''/'' # join_with ''/'' S, y] = CHR ''/'' # join_with ''/'' (S @ [y])"
proof -
  have free: "\<forall>x \<in> set S. CHR ''/'' \<notin> set x"
    using S(1) by (auto simp: list_all_iff plain_segment_def)
  have yfree: "CHR ''/'' \<notin> set y" and yne: "y \<noteq> []" and ylast: "last y \<noteq> CHR ''/''"
    using y plain_last [OF y] by (auto simp: plain_segment_def)
  let ?p = "CHR ''/'' # join_with ''/'' S @ CHR ''/'' # y"
  have sp: "split_on (CHR ''/'') (join_with ''/'' S @ CHR ''/'' # y) = S @ [y]"
    using split_join [OF S(2) free] yfree
    by (simp add: split_on_append split_on_none)
  have all: "list_all plain_segment (S @ [y])"
    using S(1) y by simp
  have ns: "normalizeString False [] (S @ [y]) = S @ [y]"
    using normalizeString_id [OF all, of False "[]"] by simp
  have ne: "join_with ''/'' (S @ [y]) \<noteq> []"
    using join_with_nonempty [OF all] by simp
  have "path_join [CHR ''/'' # join_with ''/'' S, y] = normalize ?p"
    using yne by (simp add: path_join_def)
  also have "\<dots> = CHR ''/'' # join_with ''/'' (S @ [y])"
    using ne ylast yne by (simp add: normalize_def isAbsolute_def sp ns)
  finally show ?thesis .
qed

lemma STREAMS_DIR_absolute:
  assumes "isAbsolute root"
  shows "\<exists>S. list_all plain_segment S \<and> S \<noteq> [] \<and> STREAMS_DIR root = CHR ''/'' # join_with ''/'' S"
proof -
  have r: "root \<noteq> []" and ab: "isAbsolute (root @ ''/streams'')"
    using assms by (auto simp: isAbsolute_def split: list.splits)
  let ?P = "normalizeString False [] (split_on (CHR ''/'') root)"
  have st: "plain_segment ''streams''"
    by (simp add: plain_segment_def)
  have P: "list_all plain_segment ?P"
    by (rule normalizeString_plain) (auto dest: split_on_free)
  have all: "list_all plain_segment (?P @ [''streams''])"
    using P st by simp
  have sp: "split_on (CHR ''/'') (root @ ''/streams'') = split_on (CHR ''/'') root @ [''streams'']"
    using split_on_append [of "CHR ''/''" root "''streams''"] by (simp add: split_on_none)
  have ns: "normalizeString False [] (split_on (CHR ''/'') (root @ ''/streams'')) = ?P @ [''streams'']"
    by (simp only: sp normalizeString_snoc [OF st])
  have ne: "join_with ''/'' (?P @ [''streams'']) \<noteq> []"
    using join_with_nonempty [OF all] by simp
  have "STREAMS_DIR root = normalize (root @ ''/streams'')"
    by (simp add: STREAMS_DIR_def path_join_def r)
  also have "\<dots> = CHR ''/'' # join_with ''/'' (?P @ [''streams''])"
    using ne ab by (simp add: normalize_def ns)
  finally show ?thesis
    using all by blast
qed

lemma valid_channel_plain:
  assumes "valid_channel ch"
  shows "plain_segment ch" "plain_segment (ch @ ''.m3u8'')" "plain_segment (ch @ ''_%03d.ts'')"
proof -
  have c: "\<forall>c \<in> set ch. c \<noteq> CHR ''/'' \<and> c \<noteq> CHR ''.''" and ne: "ch \<noteq> []"
    using assms by (auto simp: valid_channel_def list_all_iff is_word_char_def)
  then have "CHR ''/'' \<notin> set ch" "CHR ''.'' \<notin> set ch"
    by auto
  then show "plain_segment ch" "plain_segment (ch @ ''.m3u8'')" "plain_segment (ch @ ''_%03d.ts'')"
    using ne by (auto simp: plain_segment_def append_eq_Cons_conv)
qed

lemma path_segments_abs:
  "list_all plain_segment S \<Longrightarrow> S \<noteq> [] \<Longrightarrow> path_segments (CHR ''/'' # join_with ''/'' S) = S"
proof -
  assume S: "list_all plain_segment S" "S \<noteq> []"
  have free: "\<forall>x \<in> set S. CHR ''/'' \<notin> set x"
    using S(1) by (auto simp: list_all_iff plain_segment_def)
  have "filter (\<lambda>s. s \<noteq> []) S = S"
    using S(1) by (auto simp: list_all_iff plain_segment_def filter_id_conv)
  then show ?thesis
    using split_join [OF S(2) free] by (simp add: path_segments_def)
qed

subsection \<open>\<open>stopStream\<close> without an entry\<close>

text \<open>
  Claim C8. For a channel id with no registry entry, \<open>stopStream\<close> returns false and
  leaves the whole state as it was: no registry change, no signal, no counter change.
\<close>

theorem stopStream_absent:
  "map_of (active w) ch = None \<Longrightarrow> stopStream now ch w = (False, w)"
  by (simp add: stopStream_def)

theorem stopStream_absent_witness:
  "map_of (active example_server) ''news1'' = None \<and>
   stopStream 5000 ''news1'' example_server = (False, example_server)"
  using stopStream_absent [of example_server "''news1''" 5000]
  by (simp add: example_server_def init_server_def)

subsection \<open>\<open>startStream\<close> on an active channel\<close>

text \<open>
  Claim C6. \<open>startStream\<close> on a channel that has a registry entry returns the state as it
  is: no process is spawned, no counter changes, the entry is untouched. Hence any number of
  requests for one configured channel that arrive while it has no entry (each runs the
  synchronous start of the route to its end before the next one begins) spawn exactly one
  process, leave exactly one registry entry for the channel, and count one start; in both
  variants.
\<close>

theorem startStream_idempotent:
  "(active_has w ch \<longrightarrow> startStream now ch n w = w) \<and>
   (\<not> active_has w ch \<and> configured w ch \<longrightarrow>
      length (heap (fold (\<lambda>t. request_begin t ch) (t # ts) w)) = Suc (length (heap w)) \<and>
      length (filter (\<lambda>e. fst e = ch) (active (fold (\<lambda>t. request_begin t ch) (t # ts) w))) = 1 \<and>
      totalStarted (stats (fold (\<lambda>t. request_begin t ch) (t # ts) w)) = Suc (totalStarted (stats w)) \<and>
      length (heap (fold (\<lambda>t. request_begin_old t ch) (t # ts) w)) = Suc (length (heap w)) \<and>
      length (filter (\<lambda>e. fst e = ch) (active (fold (\<lambda>t. request_begin_old t ch) (t # ts) w))) = 1 \<and>
      totalStarted (stats (fold (\<lambda>t. request_begin_old t ch) (t # ts) w)) = Suc (totalStarted (stats w)))"
proof (intro conjI impI)
  assume "active_has w ch"
  then show "startStream now ch n w = w" by (simp add: startStream_def)
next
  assume a: "\<not> active_has w ch \<and> configured w ch"
  then have n: "map_of (active w) ch = None" by (simp add: active_has_def)
  note f = first_request [of w ch t] requests_active [of "request_begin t ch w" ch ts]
  show "length (heap (fold (\<lambda>t. request_begin t ch) (t # ts) w)) = Suc (length (heap w))"
    using a f by simp
  show "length (filter (\<lambda>e. fst e = ch) (active (fold (\<lambda>t. request_begin t ch) (t # ts) w))) = 1"
    using a f filter_update_fresh [OF n] by simp
  show "totalStarted (stats (fold (\<lambda>t. request_begin t ch) (t # ts) w)) = Suc (totalStarted (stats w))"
    using a f by simp
  note g = first_request_old [of w ch t] requests_active_old [of "request_begin_old t ch w" ch ts]
  show "length (heap (fold (\<lambda>t. request_begin_old t ch) (t # ts) w)) = Suc (length (heap w))"
    using a g by simp
  show "length (filter (\<lambda>e. fst e = ch) (active (fold (\<lambda>t. request_begin_old t ch) (t # ts) w))) = 1"
    using a g filter_update_fresh [OF n] by simp
  show "totalStarted (stats (fold (\<lambda>t. request_begin_old t ch) (t # ts) w)) = Suc (totalStarted (stats w))"
    using a g by simp
qed

theorem startStream_idempotent_witness:
  "active_has example_running ''news1'' \<and>
   startStream 5000 ''news1'' 0 example_running = example_running \<and>
   \<not> active_has example_server ''news1'' \<and> configured example_server ''news1'' \<and>
   length (heap (fold (\<lambda>t. request_begin t ''news1'') [1000, 1000, 1001] example_server)) = 1 \<and>
   length (heap (fold (\<lambda>t. request_begin_old t ''news1'') [1000, 1000, 1001] example_server)) = 1"
  using startStream_idempotent [of example_running "''news1''" 5000 0 1000 "[]"]
    startStream_idempotent [of example_server "''news1''" 0 0 1000 "[1000, 1001]"]
    example_server_eval
  by (simp add: example_running_eval active_has_def example_server_def init_server_def)

subsection \<open>Missing or unusable source configuration\<close>

text \<open>
  Claim C9. When the playlist file of a channel is missing, or \<open>parseM3U\<close> finds no URL
  in it (or cannot read it), \<open>startStream\<close> returns with the registry, the state objects
  (so no process is spawned), the counters, the timers, the signals and the file system as
  before. When the channel has no registry entry, the call writes one line to the console,
  naming the missing playlist or the error of \<open>parseM3U\<close>, and changes nothing else; when it
  has one, the call returns at its first statement. \<open>startStream\<close> has no exceptional exit
  on this path: the exception of \<open>parseM3U\<close> is caught. A line counts as a URL after
  \<open>trim\<close>, which strips the Unicode white space: a file of comment lines behind a byte
  order mark or a no-break space has no URL.
\<close>

theorem startStream_no_source:
  assumes "\<not> configured w ch"
  shows "(active_has w ch \<longrightarrow> startStream now ch n w = w) \<and>
         (\<not> active_has w ch \<longrightarrow>
            (\<exists>l. (l = PlaylistMissing ch \<or> (\<exists>e. l = M3UError e)) \<and>
                  startStream now ch n w = console_log l w)) \<and>
         active (startStream now ch n w) = active w \<and>
         heap (startStream now ch n w) = heap w \<and>
         stats (startStream now ch n w) = stats w \<and>
         timers (startStream now ch n w) = timers w \<and>
         signals (startStream now ch n w) = signals w \<and>
         fs (startStream now ch n w) = fs w"
proof (cases "active_has w ch")
  case True
  then show ?thesis by (simp add: startStream_def)
next
  case False
  then show ?thesis
    using startStream_unconfigured [OF False assms, of now n] by (auto simp: console_log_fields)
qed

theorem startStream_no_source_witness:
  "\<not> configured example_server ''sport'' \<and> \<not> active_has example_server ''sport'' \<and>
   active (startStream 1000 ''sport'' 0 example_server) = [] \<and>
   heap (startStream 1000 ''sport'' 0 example_server) = [] \<and>
   \<not> configured example_server ''blank'' \<and> \<not> active_has example_server ''blank'' \<and>
   active (startStream 1000 ''blank'' 0 example_server) = [] \<and>
   heap (startStream 1000 ''blank'' 0 example_server) = [] \<and>
   \<not> configured example_unplugged ''news1'' \<and> active_has example_unplugged ''news1'' \<and>
   startStream 5000 ''news1'' 0 example_unplugged = example_unplugged \<and>
   \<not> configured example_server ''bom'' \<and> \<not> active_has example_server ''bom'' \<and>
   active (startStream 1000 ''bom'' 0 example_server) = [] \<and>
   heap (startStream 1000 ''bom'' 0 example_server) = []"
  using startStream_no_source [of example_server "''sport''" 1000 0]
    startStream_no_source [of example_server "''blank''" 1000 0]
    startStream_no_source [of example_unplugged "''news1''" 5000 0]
    startStream_no_source [of example_server "''bom''" 1000 0] example_unconfigured
  by (simp add: example_server_def init_server_def)

subsection \<open>The retry policy of the exit observer\<close>

text \<open>One exit, in any state: the timer the exit observer adds, and what that timer does
  when it fires.\<close>

lemma exit_restart_step:
  fixes w :: server and now :: int and r :: nat
  defines "w1 \<equiv> on_exit now r w" and "w2 \<equiv> on_exit_old now r w"
  assumes "heap_get w r = Some s" and "\<not> intentionalStop s"
  shows
    "(s_retryCount s < 3 \<longrightarrow>
        timers w1 = timers w @ [(now + 5000, Restart (s_ch s) (s_retryCount s + 1))] \<and>
        timers w2 = timers w @ [(now + 5000, Restart (s_ch s) (s_retryCount s + 1))] \<and>
        (now + 5000 \<le> t \<longrightarrow>
           fire_timer t (length (timers w)) w1 =
             startStream t (s_ch s) (s_retryCount s + 1) (w1\<lparr>timers := timers w\<rparr>) \<and>
           fire_timer t (length (timers w)) w2 =
             startStream t (s_ch s) (s_retryCount s + 1) (w2\<lparr>timers := timers w\<rparr>) \<and>
           (configured w1 (s_ch s) \<longrightarrow>
              (\<exists>s'. heap (fire_timer t (length (timers w)) w1) = heap w1 @ [s'] \<and>
                    s_retryCount s' = s_retryCount s + 1)) \<and>
           (configured w2 (s_ch s) \<longrightarrow>
              (\<exists>s'. heap (fire_timer t (length (timers w)) w2) = heap w2 @ [s'] \<and>
                    s_retryCount s' = s_retryCount s + 1)))) \<and>
     (3 \<le> s_retryCount s \<longrightarrow> timers w1 = timers w \<and> timers w2 = timers w) \<and>
     \<not> active_has w1 (s_ch s) \<and> \<not> active_has w2 (s_ch s)"
proof -
  have a: "\<not> active_has w1 (s_ch s)" "\<not> active_has w2 (s_ch s)"
    using assms(3) by (simp_all add: w1_def w2_def active_has_def on_exit_active delete_conv)
  have hi: "3 \<le> s_retryCount s \<longrightarrow> timers w1 = timers w \<and> timers w2 = timers w"
    using assms(3) by (simp add: w1_def w2_def on_exit_timers)
  have lo: ?thesis if l: "s_retryCount s < 3"
  proof -
    have t1: "timers w1 = timers w @ [(now + 5000, Restart (s_ch s) (s_retryCount s + 1))]"
      and t2: "timers w2 = timers w @ [(now + 5000, Restart (s_ch s) (s_retryCount s + 1))]"
      using assms(3,4) l by (simp_all add: w1_def w2_def on_exit_timers)
    have f: "fire_timer t (length (timers w)) w1 =
               startStream t (s_ch s) (s_retryCount s + 1) (w1\<lparr>timers := timers w\<rparr>)"
            "fire_timer t (length (timers w)) w2 =
               startStream t (s_ch s) (s_retryCount s + 1) (w2\<lparr>timers := timers w\<rparr>)"
      if "now + 5000 \<le> t"
      using fire_last_timer [OF t1 that] fire_last_timer [OF t2 that]
      by (simp_all add: run_callback_def)
    have n: "\<exists>s'. heap (startStream t (s_ch s) (s_retryCount s + 1) (w'\<lparr>timers := timers w\<rparr>)) =
                    heap w' @ [s'] \<and> s_retryCount s' = s_retryCount s + 1"
      if "\<not> active_has w' (s_ch s)" "configured w' (s_ch s)" for w'
      using startStream_new_entry [of "w'\<lparr>timers := timers w\<rparr>" "s_ch s" t "s_retryCount s + 1"] that
      by (auto simp: active_has_timers configured_timers)
    show ?thesis
      using t1 t2 f n [OF a(1)] n [OF a(2)] a l by auto
  qed
  show ?thesis
  proof (cases "s_retryCount s < 3")
    case True
    then show ?thesis by (rule lo)
  next
    case False
    then show ?thesis using a hi by simp
  qed
qed

text \<open>Consecutive exits: from a first request on, the worker that runs after \<open>k\<close> cycles
  of exit and restart has retry count \<open>k\<close>.\<close>

lemma configured_cong:
  "ROOT_DIR w' = ROOT_DIR w \<Longrightarrow>
     fs w' (path_join [PLAYLISTS_DIR (ROOT_DIR w), ch @ ''.m3u'']) =
       fs w (path_join [PLAYLISTS_DIR (ROOT_DIR w), ch @ ''.m3u'']) \<Longrightarrow>
     configured w' ch = configured w ch"
  by (simp add: configured_def Let_def existsSync_def parseM3U_def readFileSync_def)

lemma configured_exists:
  "configured w ch \<Longrightarrow> fs w (path_join [PLAYLISTS_DIR (ROOT_DIR w), ch @ ''.m3u'']) \<noteq> None"
  by (simp add: configured_def Let_def existsSync_def)

lemma spawn_entry_fs:
  "fs (spawn_entry t ch k url w) p =
     (if p = dir (getPaths (ROOT_DIR w) ch) \<and> fs w p = None then Some Dir else fs w p)"
  by (auto simp: spawn_entry_def Let_def console_log_def existsSync_def)

lemma configured_spawn_entry:
  assumes "configured w c"
  shows "configured (spawn_entry t ch k url w) c"
proof -
  have "fs (spawn_entry t ch k url w) (path_join [PLAYLISTS_DIR (ROOT_DIR w), c @ ''.m3u'']) =
          fs w (path_join [PLAYLISTS_DIR (ROOT_DIR w), c @ ''.m3u''])"
    using configured_exists [OF assms] by (auto simp: spawn_entry_fs)
  then show ?thesis
    using configured_cong [of "spawn_entry t ch k url w" w c] assms
    by (simp add: spawn_entry_fields)
qed

lemma running_start:
  assumes "\<not> active_has w ch" and "configured w ch"
  shows "running_with ch k (startStream t ch k w) \<and> configured (startStream t ch k w) ch \<and>
         timers (startStream t ch k w) = timers w \<and>
         length (heap (startStream t ch k w)) = Suc (length (heap w)) \<and>
         ROOT_DIR (startStream t ch k w) = ROOT_DIR w"
proof -
  obtain url where u: "startStream t ch k w = spawn_entry t ch k url w"
    using startStream_configured [OF assms] by blast
  have "running_with ch k (spawn_entry t ch k url w)"
    by (simp add: running_with_def spawn_entry_def Let_def console_log_def update_conv'
        heap_get_def)
  then show ?thesis
    using configured_spawn_entry [OF assms(2)] by (simp add: u spawn_entry_fields)
qed

lemma running_crash:
  assumes "running_with ch k w"
  shows "timers (crash te ch w) =
           (if k < 3 then timers w @ [(te + 5000, Restart ch (k + 1))] else timers w)"
    and "\<not> active_has (crash te ch w) ch"
    and "fs (crash te ch w) = fs w"
    and "ROOT_DIR (crash te ch w) = ROOT_DIR w"
    and "length (heap (crash te ch w)) = length (heap w)"
  using assms
  by (auto simp: running_with_def crash_def step_def exits_def on_exit_def Let_def heap_set_def
      setTimeout_def console_log_def active_delete_def active_has_def delete_conv
      split: option.splits)

lemma running_crash_old:
  assumes "running_with ch k w"
  shows "timers (crash_old te ch w) =
           (if k < 3 then timers w @ [(te + 5000, Restart ch (k + 1))] else timers w)"
    and "\<not> active_has (crash_old te ch w) ch"
    and "\<not> below (dir (getPaths (ROOT_DIR w) ch)) p \<Longrightarrow> fs (crash_old te ch w) p = fs w p"
    and "ROOT_DIR (crash_old te ch w) = ROOT_DIR w"
    and "length (heap (crash_old te ch w)) = length (heap w)"
  using assms
  by (auto simp: running_with_def crash_old_def step_old_def exits_def on_exit_old_def Let_def
      heap_set_def setTimeout_def console_log_def active_delete_def active_has_def delete_conv
      safeDeleteFolder_def rm_rf_def split: option.splits)

lemma restart_cycle_running:
  assumes "running_with ch k w" and "configured w ch" and "k < 3" and "fst tt + 5000 \<le> snd tt"
  shows "running_with ch (Suc k) (restart_cycle tt ch w) \<and> configured (restart_cycle tt ch w) ch \<and>
         timers (restart_cycle tt ch w) = timers w \<and>
         length (heap (restart_cycle tt ch w)) = Suc (length (heap w)) \<and>
         ROOT_DIR (restart_cycle tt ch w) = ROOT_DIR w"
proof -
  let ?c = "crash (fst tt) ch w"
  let ?c' = "?c\<lparr>timers := timers w\<rparr>"
  note c = running_crash [OF assms(1), where te = "fst tt"]
  have t: "timers ?c = timers w @ [(fst tt + 5000, Restart ch (k + 1))]"
    using c(1) assms(3) by simp
  have f: "restart_cycle tt ch w = startStream (snd tt) ch (Suc k) ?c'"
    using fire_last_timer [OF t assms(4)] by (simp add: restart_cycle_def run_callback_def)
  have a: "\<not> active_has ?c' ch"
    using c(2) by (simp add: active_has_timers)
  have "configured ?c ch"
    using configured_cong [of ?c w ch] assms(2) c(3,4) by simp
  then have g: "configured ?c' ch"
    by (simp add: configured_timers)
  show ?thesis
    using running_start [OF a g, where k = "Suc k" and t = "snd tt"] c(4,5) by (simp add: f)
qed

lemma restart_cycle_old_running:
  assumes "running_with ch k w" and "configured w ch" and "k < 3" and "fst tt + 5000 \<le> snd tt"
    and "\<not> below (dir (getPaths (ROOT_DIR w) ch))
             (path_join [PLAYLISTS_DIR (ROOT_DIR w), ch @ ''.m3u''])"
  shows "running_with ch (Suc k) (restart_cycle_old tt ch w) \<and>
         configured (restart_cycle_old tt ch w) ch \<and>
         timers (restart_cycle_old tt ch w) = timers w \<and>
         length (heap (restart_cycle_old tt ch w)) = Suc (length (heap w)) \<and>
         ROOT_DIR (restart_cycle_old tt ch w) = ROOT_DIR w"
proof -
  let ?c = "crash_old (fst tt) ch w"
  let ?c' = "?c\<lparr>timers := timers w\<rparr>"
  note c = running_crash_old [OF assms(1), where te = "fst tt"]
  have t: "timers ?c = timers w @ [(fst tt + 5000, Restart ch (k + 1))]"
    using c(1) assms(3) by simp
  have f: "restart_cycle_old tt ch w = startStream (snd tt) ch (Suc k) ?c'"
    using fire_last_timer [OF t assms(4)] by (simp add: restart_cycle_old_def run_callback_def)
  have a: "\<not> active_has ?c' ch"
    using c(2) by (simp add: active_has_timers)
  have "configured ?c ch"
    using configured_cong [of ?c w ch] assms(2) c(3) [OF assms(5)] c(4) by simp
  then have g: "configured ?c' ch"
    by (simp add: configured_timers)
  show ?thesis
    using running_start [OF a g, where k = "Suc k" and t = "snd tt"] c(4,5) by (simp add: f)
qed

lemma lineage_running:
  "running_with ch k w \<Longrightarrow> configured w ch \<Longrightarrow> k + length tts \<le> 3 \<Longrightarrow>
     list_all (\<lambda>tt. fst tt + 5000 \<le> snd tt) tts \<Longrightarrow>
     running_with ch (k + length tts) (lineage tts ch w) \<and> configured (lineage tts ch w) ch \<and>
     timers (lineage tts ch w) = timers w \<and>
     length (heap (lineage tts ch w)) = length (heap w) + length tts \<and>
     ROOT_DIR (lineage tts ch w) = ROOT_DIR w"
proof (induction tts arbitrary: k w)
  case Nil
  then show ?case by (simp add: lineage_def)
next
  case (Cons tt tts)
  have k: "k < 3" and ok: "fst tt + 5000 \<le> snd tt"
    using Cons.prems(3,4) by simp_all
  note c = restart_cycle_running [OF Cons.prems(1,2) k ok]
  have l: "lineage (tt # tts) ch w = lineage tts ch (restart_cycle tt ch w)"
    by (simp add: lineage_def)
  show ?case
    using Cons.IH [of "Suc k" "restart_cycle tt ch w"] c Cons.prems(3,4) by (simp add: l)
qed

lemma lineage_old_running:
  "running_with ch k w \<Longrightarrow> configured w ch \<Longrightarrow> k + length tts \<le> 3 \<Longrightarrow>
     list_all (\<lambda>tt. fst tt + 5000 \<le> snd tt) tts \<Longrightarrow>
     \<not> below (dir (getPaths (ROOT_DIR w) ch))
         (path_join [PLAYLISTS_DIR (ROOT_DIR w), ch @ ''.m3u'']) \<Longrightarrow>
     running_with ch (k + length tts) (lineage_old tts ch w) \<and>
     configured (lineage_old tts ch w) ch \<and>
     timers (lineage_old tts ch w) = timers w \<and>
     length (heap (lineage_old tts ch w)) = length (heap w) + length tts \<and>
     ROOT_DIR (lineage_old tts ch w) = ROOT_DIR w"
proof (induction tts arbitrary: k w)
  case Nil
  then show ?case by (simp add: lineage_old_def)
next
  case (Cons tt tts)
  have k: "k < 3" and ok: "fst tt + 5000 \<le> snd tt"
    using Cons.prems(3,4) by simp_all
  note c = restart_cycle_old_running [OF Cons.prems(1,2) k ok Cons.prems(5)]
  have l: "lineage_old (tt # tts) ch w = lineage_old tts ch (restart_cycle_old tt ch w)"
    by (simp add: lineage_old_def)
  show ?case
    using Cons.IH [of "Suc k" "restart_cycle_old tt ch w"] c Cons.prems(3,4,5) by (simp add: l)
qed

lemma root_join_plain:
  assumes "isAbsolute root" and "plain_segment x"
  shows "list_all plain_segment (normalizeString False [] (split_on (CHR ''/'') root))"
    and "path_join [root, x] =
           CHR ''/'' # join_with ''/'' (normalizeString False [] (split_on (CHR ''/'') root) @ [x])"
proof -
  let ?P = "normalizeString False [] (split_on (CHR ''/'') root)"
  have xf: "CHR ''/'' \<notin> set x" and xne: "x \<noteq> []" and xl: "last x \<noteq> CHR ''/''"
    using assms(2) plain_last [OF assms(2)] by (auto simp: plain_segment_def)
  have r: "root \<noteq> []" and ab: "isAbsolute (root @ CHR ''/'' # x)"
    using assms(1) by (auto simp: isAbsolute_def split: list.splits)
  show P: "list_all plain_segment ?P"
    by (rule normalizeString_plain) (auto dest: split_on_free)
  have all: "list_all plain_segment (?P @ [x])"
    using P assms(2) by simp
  have sp: "split_on (CHR ''/'') (root @ CHR ''/'' # x) = split_on (CHR ''/'') root @ [x]"
    using xf by (simp add: split_on_append split_on_none)
  have ns: "normalizeString False [] (split_on (CHR ''/'') (root @ CHR ''/'' # x)) = ?P @ [x]"
    by (simp only: sp normalizeString_snoc [OF assms(2)])
  have ne: "join_with ''/'' (?P @ [x]) \<noteq> []"
    using join_with_nonempty [OF all] by simp
  have "path_join [root, x] = normalize (root @ CHR ''/'' # x)"
    using xne by (simp add: path_join_def r)
  also have "\<dots> = CHR ''/'' # join_with ''/'' (?P @ [x])"
    using ne ab xl xne by (simp add: normalize_def ns)
  finally show "path_join [root, x] = CHR ''/'' # join_with ''/'' (?P @ [x])" .
qed

lemma join_with_two:
  "join_with d (P @ [a, b]) = (if P = [] then [] else join_with d P @ d) @ a @ d @ b"
  using join_with_snoc2 [of P d a b] by (cases "P = []") simp_all

lemma below_diverge: "x \<noteq> y \<Longrightarrow> \<not> below (A @ x # X) (A @ y # Y)"
  by (simp add: below_def)

lemma playlist_outside_dir:
  assumes "valid_channel ch" and "isAbsolute root"
  shows "\<not> below (dir (getPaths root ch)) (path_join [PLAYLISTS_DIR root, ch @ ''.m3u''])"
proof -
  let ?P = "normalizeString False [] (split_on (CHR ''/'') root)"
  have pl: "plain_segment ch"
    by (rule valid_channel_plain(1) [OF assms(1)])
  have pm: "plain_segment (ch @ ''.m3u'')"
    using pl by (auto simp: plain_segment_def append_eq_Cons_conv)
  have ps: "plain_segment ''streams''" "plain_segment ''playlists''"
    by (simp_all add: plain_segment_def)
  note s = root_join_plain [OF assms(2) ps(1)]
  note q = root_join_plain [OF assms(2) ps(2)]
  have S: "list_all plain_segment (?P @ [''streams''])" "?P @ [''streams''] \<noteq> []"
    and Q: "list_all plain_segment (?P @ [''playlists''])" "?P @ [''playlists''] \<noteq> []"
    using s(1) ps by simp_all
  have d: "dir (getPaths root ch) = CHR ''/'' # join_with ''/'' (?P @ [''streams'', ch])"
    using path_join_plain [OF S pl] by (simp add: getPaths_def Let_def STREAMS_DIR_def s(2))
  have m: "path_join [PLAYLISTS_DIR root, ch @ ''.m3u''] =
             CHR ''/'' # join_with ''/'' (?P @ [''playlists'', ch @ ''.m3u''])"
    using path_join_plain [OF Q pm] by (simp add: PLAYLISTS_DIR_def q(2))
  let ?A = "CHR ''/'' # (if ?P = [] then [] else join_with ''/'' ?P @ ''/'')"
  have d': "dir (getPaths root ch) = ?A @ CHR ''s'' # (''treams/'' @ ch)"
    by (simp add: d join_with_two)
  have m': "path_join [PLAYLISTS_DIR root, ch @ ''.m3u''] =
              ?A @ CHR ''p'' # (''laylists/'' @ ch @ ''.m3u'')"
    by (simp add: m join_with_two)
  show ?thesis
    unfolding d' m' by (rule below_diverge) simp
qed

lemma running_flag:
  "running_with ch k w \<Longrightarrow>
     \<exists>r s. map_of (active w) ch = Some r \<and> heap_get w r = Some s \<and> s_retryCount s = k \<and>
           \<not> intentionalStop s \<and> proc_handle s"
  by (auto simp: running_with_def split: option.splits)

lemma lineage_facts:
  assumes "\<not> active_has w ch" and "configured w ch" and "length tts \<le> 3"
    and "list_all (\<lambda>tt. fst tt + 5000 \<le> snd tt) tts"
  shows "running_with ch (length tts) (lineage tts ch (request_begin treq ch w))"
    and "length (heap (lineage tts ch (request_begin treq ch w))) = length (heap w) + length tts + 1"
    and "timers (lineage tts ch (request_begin treq ch w)) = timers w"
proof -
  have b: "request_begin treq ch w = startStream treq ch 0 w"
    using assms(1) by (simp add: request_begin_def)
  note st = running_start [OF assms(1,2), where k = 0 and t = treq]
  note l = lineage_running [of ch 0 "startStream treq ch 0 w" tts]
  show "running_with ch (length tts) (lineage tts ch (request_begin treq ch w))"
    and "length (heap (lineage tts ch (request_begin treq ch w))) = length (heap w) + length tts + 1"
    and "timers (lineage tts ch (request_begin treq ch w)) = timers w"
    using st l assms(3,4) by (simp_all add: b)
qed

lemma lineage_old_facts:
  assumes "\<not> active_has w ch" and "configured w ch" and "length tts \<le> 3"
    and "list_all (\<lambda>tt. fst tt + 5000 \<le> snd tt) tts"
    and "valid_channel ch" and "isAbsolute (ROOT_DIR w)"
  shows "running_with ch (length tts) (lineage_old tts ch (request_begin_old treq ch w))"
    and "length (heap (lineage_old tts ch (request_begin_old treq ch w))) =
           length (heap w) + length tts + 1"
    and "timers (lineage_old tts ch (request_begin_old treq ch w)) = timers w"
proof -
  let ?w = "console_log (Demand ch) w"
  have b: "request_begin_old treq ch w = startStream treq ch 0 ?w"
    using assms(1) by (simp add: request_begin_old_def)
  have a: "\<not> active_has ?w ch" "configured ?w ch"
    using assms(1,2) by (simp_all add: configured_console active_has_console)
  note st = running_start [OF a, where k = 0 and t = treq]
  have n: "\<not> below (dir (getPaths (ROOT_DIR (startStream treq ch 0 ?w)) ch))
             (path_join [PLAYLISTS_DIR (ROOT_DIR (startStream treq ch 0 ?w)), ch @ ''.m3u''])"
    using playlist_outside_dir [OF assms(5,6)] st by (simp add: console_log_fields)
  note l = lineage_old_running [of ch 0 "startStream treq ch 0 ?w" tts, OF _ _ _ _ n]
  show "running_with ch (length tts) (lineage_old tts ch (request_begin_old treq ch w))"
    and "length (heap (lineage_old tts ch (request_begin_old treq ch w))) =
           length (heap w) + length tts + 1"
    and "timers (lineage_old tts ch (request_begin_old treq ch w)) = timers w"
    using st l assms(3,4) by (simp_all add: b console_log_fields)
qed

lemma example_server_fields:
  "ROOT_DIR example_server = ''/srv''" "timers example_server = []" "heap example_server = []"
  "active example_server = []"
  by (simp_all add: example_server_def init_server_def)

text \<open>
  Claim C2, as stated, fails in its last part: the exit observer tests \<open>retryCount < 3\<close>,
  and the worker of a first request has retry count 0, so the third unintentional exit in
  a row is that of the worker with retry count 2. Here channel \<open>news1\<close> is requested at
  1000 and its worker exits at 2000, 8000 and 14000, each restart firing 5000 ms after
  the exit: the third exit leaves the timer of a fourth start, with retry count 3. Both
  variants.
\<close>

theorem exit_restart_policy_counterexample:
  "timers (crash 14000 ''news1''
      (lineage [(2000, 7000), (8000, 13000)] ''news1'' (request_begin 1000 ''news1'' example_server))) =
     [(19000, Restart ''news1'' 3)] \<and>
   timers (crash_old 14000 ''news1''
      (lineage_old [(2000, 7000), (8000, 13000)] ''news1''
         (request_begin_old 1000 ''news1'' example_server))) =
     [(19000, Restart ''news1'' 3)]"
proof -
  have a: "\<not> active_has example_server ''news1''" "configured example_server ''news1''"
    by (rule example_server_eval)+
  have b: "valid_channel ''news1''" "isAbsolute (ROOT_DIR example_server)"
    by (simp_all add: valid_news1 example_server_def init_server_def isAbsolute_def)
  have t: "timers example_server = []"
    by (simp add: example_server_def init_server_def)
  note n = lineage_facts [OF a, of "[(2000, 7000), (8000, 13000)]" 1000]
  note o = lineage_old_facts [OF a _ _ b, of "[(2000, 7000), (8000, 13000)]" 1000]
  have n1: "running_with ''news1'' 2
      (lineage [(2000, 7000), (8000, 13000)] ''news1'' (request_begin 1000 ''news1'' example_server))"
    and n3: "timers
      (lineage [(2000, 7000), (8000, 13000)] ''news1'' (request_begin 1000 ''news1'' example_server)) = []"
    using n(1,3) t by (simp_all add: numeral_2_eq_2)
  have o1: "running_with ''news1'' 2
      (lineage_old [(2000, 7000), (8000, 13000)] ''news1''
         (request_begin_old 1000 ''news1'' example_server))"
    and o3: "timers
      (lineage_old [(2000, 7000), (8000, 13000)] ''news1''
         (request_begin_old 1000 ''news1'' example_server)) = []"
    using o(1,3) t by (simp_all add: numeral_2_eq_2)
  show ?thesis
    using running_crash(1) [OF n1, of 14000] running_crash_old(1) [OF o1, of 14000] n3 o3
    by simp
qed

text \<open>
  Claim C2, amended. When the worker of a state object exits and \<open>intentionalStop\<close> is
  false: if its retry count is below 3, the exit observer adds exactly one timer, due 5000
  ms after \<open>now\<close>, whose callback is \<open>startStream\<close> for the same channel with the retry
  count plus one (when that timer fires and the channel is still configured, the new state
  object carries that larger count); if its retry count is 3 or more, no timer is added.
  In both cases the registry has no entry for the channel after the observer has run.
  Counted in exits: after a first request for a configured channel with a valid id (and
  with no other event between an exit and the firing of its timer), the worker that runs
  after \<open>k \<le> 3\<close> cycles of unintentional exit and restart has retry count \<open>k\<close>, and
  \<open>k + 1\<close> workers have been spawned; so the first, second and third unintentional exit
  in a row each schedule one restart, with retry count 1, 2 and 3, and the fourth schedules
  none and leaves the registry without an entry for the channel. Both variants.
\<close>

theorem exit_restart_policy:
  fixes w v :: server and now treq :: int and r :: nat and ch :: string
    and tts :: "(int \<times> int) list"
  defines "v1 \<equiv> on_exit now r v" and "v2 \<equiv> on_exit_old now r v"
    and "wk \<equiv> lineage tts ch (request_begin treq ch w)"
    and "wo \<equiv> lineage_old tts ch (request_begin_old treq ch w)"
  shows
    "(heap_get v r = Some s \<and> \<not> intentionalStop s \<longrightarrow>
        (s_retryCount s < 3 \<longrightarrow>
           timers v1 = timers v @ [(now + 5000, Restart (s_ch s) (s_retryCount s + 1))] \<and>
           timers v2 = timers v @ [(now + 5000, Restart (s_ch s) (s_retryCount s + 1))] \<and>
           (now + 5000 \<le> t \<longrightarrow>
              fire_timer t (length (timers v)) v1 =
                startStream t (s_ch s) (s_retryCount s + 1) (v1\<lparr>timers := timers v\<rparr>) \<and>
              fire_timer t (length (timers v)) v2 =
                startStream t (s_ch s) (s_retryCount s + 1) (v2\<lparr>timers := timers v\<rparr>) \<and>
              (configured v1 (s_ch s) \<longrightarrow>
                 (\<exists>s'. heap (fire_timer t (length (timers v)) v1) = heap v1 @ [s'] \<and>
                       s_retryCount s' = s_retryCount s + 1)) \<and>
              (configured v2 (s_ch s) \<longrightarrow>
                 (\<exists>s'. heap (fire_timer t (length (timers v)) v2) = heap v2 @ [s'] \<and>
                       s_retryCount s' = s_retryCount s + 1)))) \<and>
        (3 \<le> s_retryCount s \<longrightarrow> timers v1 = timers v \<and> timers v2 = timers v) \<and>
        \<not> active_has v1 (s_ch s) \<and> \<not> active_has v2 (s_ch s)) \<and>
     (valid_channel ch \<and> isAbsolute (ROOT_DIR w) \<and> \<not> active_has w ch \<and> configured w ch \<and>
      length tts \<le> 3 \<and> list_all (\<lambda>tt. fst tt + 5000 \<le> snd tt) tts \<longrightarrow>
        (\<exists>r s. map_of (active wk) ch = Some r \<and> heap_get wk r = Some s \<and>
               s_retryCount s = length tts \<and> \<not> intentionalStop s \<and> proc_handle s) \<and>
        (\<exists>r s. map_of (active wo) ch = Some r \<and> heap_get wo r = Some s \<and>
               s_retryCount s = length tts \<and> \<not> intentionalStop s \<and> proc_handle s) \<and>
        length (heap wk) = length (heap w) + length tts + 1 \<and>
        length (heap wo) = length (heap w) + length tts + 1 \<and>
        timers wk = timers w \<and> timers wo = timers w \<and>
        (length tts < 3 \<longrightarrow>
           timers (crash te ch wk) = timers w @ [(te + 5000, Restart ch (length tts + 1))] \<and>
           timers (crash_old te ch wo) = timers w @ [(te + 5000, Restart ch (length tts + 1))]) \<and>
        (length tts = 3 \<longrightarrow>
           timers (crash te ch wk) = timers w \<and> timers (crash_old te ch wo) = timers w) \<and>
        \<not> active_has (crash te ch wk) ch \<and> \<not> active_has (crash_old te ch wo) ch)"
proof (intro conjI impI)
  assume "heap_get v r = Some s \<and> \<not> intentionalStop s"
  then have h: "heap_get v r = Some s" "\<not> intentionalStop s"
    by simp_all
  note p = exit_restart_step [OF h, of now t]
  show "\<not> active_has v1 (s_ch s)" "\<not> active_has v2 (s_ch s)"
    using p unfolding v1_def v2_def by blast+
  {
    assume "3 \<le> s_retryCount s"
    then show "timers v1 = timers v" "timers v2 = timers v"
      using p unfolding v1_def v2_def by blast+
  }
  {
    assume l: "s_retryCount s < 3"
    then show "timers v1 = timers v @ [(now + 5000, Restart (s_ch s) (s_retryCount s + 1))]"
      "timers v2 = timers v @ [(now + 5000, Restart (s_ch s) (s_retryCount s + 1))]"
      using p unfolding v1_def v2_def by blast+
    assume d: "now + 5000 \<le> t"
    show "fire_timer t (length (timers v)) v1 =
            startStream t (s_ch s) (s_retryCount s + 1) (v1\<lparr>timers := timers v\<rparr>)"
      "fire_timer t (length (timers v)) v2 =
            startStream t (s_ch s) (s_retryCount s + 1) (v2\<lparr>timers := timers v\<rparr>)"
      using p l d unfolding v1_def v2_def by blast+
    {
      assume "configured v1 (s_ch s)"
      then show "\<exists>s'. heap (fire_timer t (length (timers v)) v1) = heap v1 @ [s'] \<and>
                     s_retryCount s' = s_retryCount s + 1"
        using p l d unfolding v1_def by blast
    }
    {
      assume "configured v2 (s_ch s)"
      then show "\<exists>s'. heap (fire_timer t (length (timers v)) v2) = heap v2 @ [s'] \<and>
                     s_retryCount s' = s_retryCount s + 1"
        using p l d unfolding v2_def by blast
    }
  }
next
  assume a: "valid_channel ch \<and> isAbsolute (ROOT_DIR w) \<and> \<not> active_has w ch \<and> configured w ch \<and>
      length tts \<le> 3 \<and> list_all (\<lambda>tt. fst tt + 5000 \<le> snd tt) tts"
  then have n: "running_with ch (length tts) wk" "length (heap wk) = length (heap w) + length tts + 1"
      "timers wk = timers w"
    using lineage_facts [of w ch tts treq] by (simp_all add: wk_def)
  from a have o: "running_with ch (length tts) wo"
      "length (heap wo) = length (heap w) + length tts + 1" "timers wo = timers w"
    using lineage_old_facts [of w ch tts treq] by (simp_all add: wo_def)
  show "\<exists>r s. map_of (active wk) ch = Some r \<and> heap_get wk r = Some s \<and>
               s_retryCount s = length tts \<and> \<not> intentionalStop s \<and> proc_handle s"
    by (rule running_flag [OF n(1)])
  show "\<exists>r s. map_of (active wo) ch = Some r \<and> heap_get wo r = Some s \<and>
               s_retryCount s = length tts \<and> \<not> intentionalStop s \<and> proc_handle s"
    by (rule running_flag [OF o(1)])
  show "length (heap wk) = length (heap w) + length tts + 1"
    "length (heap wo) = length (heap w) + length tts + 1" "timers wk = timers w"
    "timers wo = timers w"
    by (rule n(2) o(2) n(3) o(3))+
  show "\<not> active_has (crash te ch wk) ch" "\<not> active_has (crash_old te ch wo) ch"
    using running_crash(2) [OF n(1)] running_crash_old(2) [OF o(1)] by simp_all
  {
    assume "length tts < 3"
    then show "timers (crash te ch wk) = timers w @ [(te + 5000, Restart ch (length tts + 1))]"
      "timers (crash_old te ch wo) = timers w @ [(te + 5000, Restart ch (length tts + 1))]"
      using running_crash(1) [OF n(1), of te] running_crash_old(1) [OF o(1), of te] n(3) o(3)
      by simp_all
  }
  {
    assume "length tts = 3"
    then show "timers (crash te ch wk) = timers w" "timers (crash_old te ch wo) = timers w"
      using running_crash(1) [OF n(1), of te] running_crash_old(1) [OF o(1), of te] n(3) o(3)
      by simp_all
  }
qed

theorem exit_restart_policy_witness:
  "heap_get example_running 0 = Some (hd (heap example_running)) \<and>
   \<not> intentionalStop (hd (heap example_running)) \<and>
   timers (on_exit 2000 0 example_running) = [(7000, Restart ''news1'' 1)] \<and>
   timers (on_exit_old 2000 0 example_running) = [(7000, Restart ''news1'' 1)] \<and>
   heap_get (example_retry 3) 0 = Some (hd (heap (example_retry 3))) \<and>
   timers (on_exit 2000 0 (example_retry 3)) = [] \<and>
   timers (on_exit_old 2000 0 (example_retry 3)) = [] \<and>
   \<not> active_has (on_exit 2000 0 (example_retry 3)) ''news1'' \<and>
   \<not> active_has (on_exit_old 2000 0 (example_retry 3)) ''news1'' \<and>
   valid_channel ''news1'' \<and> isAbsolute (ROOT_DIR example_server) \<and>
   \<not> active_has example_server ''news1'' \<and> configured example_server ''news1'' \<and>
   list_all (\<lambda>tt. fst tt + 5000 \<le> snd tt)
     [(2000 :: int, 7000 :: int), (8000, 13000), (14000, 19000)] \<and>
   timers (crash 14000 ''news1''
      (lineage [(2000, 7000), (8000, 13000)] ''news1''
         (request_begin 1000 ''news1'' example_server))) = [(19000, Restart ''news1'' 3)] \<and>
   timers (crash 20000 ''news1''
      (lineage [(2000, 7000), (8000, 13000), (14000, 19000)] ''news1''
         (request_begin 1000 ''news1'' example_server))) = [] \<and>
   timers (crash_old 20000 ''news1''
      (lineage_old [(2000, 7000), (8000, 13000), (14000, 19000)] ''news1''
         (request_begin_old 1000 ''news1'' example_server))) = [] \<and>
   length (heap (lineage [(2000, 7000), (8000, 13000), (14000, 19000)] ''news1''
      (request_begin 1000 ''news1'' example_server))) = 4"
  using exit_restart_policy [where v = example_running and r = 0 and now = 2000 and t = 7000
      and s = "hd (heap example_running)" and w = example_server and ch = "''news1''"
      and tts = "[(2000, 7000), (8000, 13000)]" and treq = 1000 and te = 14000]
    exit_restart_policy [where v = "example_retry 3" and r = 0 and now = 2000 and t = 7000
      and s = "hd (heap (example_retry 3))" and w = example_server and ch = "''news1''"
      and tts = "[(2000, 7000), (8000, 13000), (14000, 19000)]" and treq = 1000 and te = 20000]
    example_server_eval
  by (simp add: example_running_eval example_retry_eval heap_get_def valid_news1 isAbsolute_def
      example_server_fields)

subsection \<open>Removal of the working directory on exit\<close>

text \<open>
  Claim C1, as stated, fails on the current variant: its exit observer removes the working
  directory under the guard \<open>if (state.intentionalStop)\<close> only. Here the worker of
  \<open>news1\<close> exits without a stop request, and its working directory is still there after
  the exit observer has run.
\<close>

theorem exit_cleanup_counterexample:
  "exits 0 example_running \<and>
   \<not> intentionalStop (hd (heap example_running)) \<and>
   s_dir (hd (heap example_running)) = ''/srv/streams/news1'' \<and>
   fs example_running ''/srv/streams/news1'' = Some Dir \<and>
   fs (on_exit 2000 0 example_running) ''/srv/streams/news1'' = Some Dir"
  by (simp add: example_running_eval exits_def heap_get_def on_exit_def Let_def heap_set_def
      setTimeout_def console_log_def active_delete_def)

text \<open>
  Claim C1, amended. In the predecessor the exit observer removes the working directory of
  the channel, with everything below it, on every exit, intentional or not. In the current
  variant it does so after an intentional stop only; after any other exit it leaves the
  file system as it is.
\<close>

theorem exit_cleanup:
  assumes "heap_get w r = Some s"
  shows "fs (on_exit_old now r w) (s_dir s) = None \<and>
         (existsSync (fs w) (s_dir s) \<longrightarrow>
            (\<forall>p. below (s_dir s) p \<longrightarrow> fs (on_exit_old now r w) p = None)) \<and>
         (intentionalStop s \<longrightarrow> (\<forall>p. below (s_dir s) p \<longrightarrow> fs (on_exit now r w) p = None)) \<and>
         (\<not> intentionalStop s \<longrightarrow> fs (on_exit now r w) = fs w)"
  using assms by (simp add: on_exit_fs rm_rf_def below_def existsSync_def)

theorem exit_cleanup_witness:
  "heap_get example_running 0 = Some (hd (heap example_running)) \<and>
   fs (on_exit_old 2000 0 example_running) ''/srv/streams/news1'' = None \<and>
   fs (on_exit_old 2000 0 example_running) ''/srv/streams/news1/news1_000.ts'' = None \<and>
   fs (on_exit 2000 0 example_running) = fs example_running \<and>
   heap_get example_stopping 0 = Some (hd (heap example_stopping)) \<and>
   fs (on_exit 131000 0 example_stopping) ''/srv/streams/news1'' = None"
  using exit_cleanup [of example_running 0 "hd (heap example_running)" 2000]
    exit_cleanup [of example_stopping 0 "hd (heap example_stopping)" 131000]
  by (simp add: example_running_eval example_stopping_eval heap_get_def existsSync_def below_def)

subsection \<open>Waiting for the manifest\<close>

text \<open>
  Claim C3, as stated, fails on the current variant, which has no waiting loop and never
  adds to \<open>stats.bandwidth\<close>. With a manifest of 7 bytes on disk the route answers with
  its content and the counter stays at 0; with no manifest (and no placeholder) it answers
  at once with status 202 instead of waiting.
\<close>

theorem readiness_waiter_counterexample:
  "valid_channel ''news1'' \<and>
   readFileSync (fs example_streaming) ''/srv/streams/news1/news1.m3u8'' = Some ''#EXTM3U'' \<and>
   fst (manifest_route 2000 ''news1'' example_streaming) = Body ''#EXTM3U'' \<and>
   bandwidth (stats example_streaming) = 0 \<and>
   bandwidth (stats (snd (manifest_route 2000 ''news1'' example_streaming))) = 0 \<and>
   readFileSync (fs example_running) ''/srv/streams/news1/news1.m3u8'' = None \<and>
   fst (manifest_route 2000 ''news1'' example_running) = Status202"
  by (simp add: valid_news1 manifest_route_def request_begin_def active_has_def touch_def
      heap_get_def heap_set_def example_streaming_eval example_running_eval news1_playlist
      placeholder_path readFileSync_def existsSync_def example_fs_def)

text \<open>
  Claim C3, amended. In the predecessor the loop polls when \<open>waited\<close> is 0, 1000, 2500,
  4500, 7000, 10000 and 13000 ms. At the first poll that finds a manifest of size \<open>n > 0\<close>
  (after fewer than seven polls that found it missing or empty) the route answers with
  \<open>sendFile\<close> of the manifest and adds \<open>n\<close> to \<open>stats.bandwidth\<close>. After seven polls
  that found it missing or empty, with the client still connected, \<open>waited\<close> is 16000
  and the route answers with status 503; the state of the server is as before. The current
  variant does not wait and leaves \<open>stats.bandwidth\<close> as it is: for a valid id it answers
  at once, never with status 503 and never with \<open>sendFile\<close>; with the content of the
  manifest when it can be read; when it cannot, with the content of the placeholder
  manifest \<open>loading.m3u8\<close> when that file can be read, and with status 202 when no such file
  exists.
\<close>

theorem readiness_waiter:
  assumes "list_all not_ready sts" and "0 < n"
  shows
    "(length sts < 7 \<longrightarrow>
        answer (snd (wrun (failed_polls sts @ [StatDone (Some n)]) (w, start_waiter pl))) =
          Some (SendFile pl) \<and>
        suspended (snd (wrun (failed_polls sts @ [StatDone (Some n)]) (w, start_waiter pl))) =
          Returned \<and>
        polls (snd (wrun (failed_polls sts @ [StatDone (Some n)]) (w, start_waiter pl))) =
          Suc (length sts) \<and>
        waited (snd (wrun (failed_polls sts @ [StatDone (Some n)]) (w, start_waiter pl))) =
          poll_times ! length sts \<and>
        bandwidth (stats (fst (wrun (failed_polls sts @ [StatDone (Some n)]) (w, start_waiter pl)))) =
          bandwidth (stats w) + n) \<and>
     (length sts = 7 \<longrightarrow>
        wrun (failed_polls sts) (w, start_waiter pl) =
          (w, \<lparr> w_playlist = pl, waited = 16000, delay = 3000, clientConnected = True,
                suspended = Returned, answer = Some Status503, polls = 7 \<rparr>)) \<and>
     (valid_channel ch \<longrightarrow>
        bandwidth (stats (snd (manifest_route now ch w))) = bandwidth (stats w) \<and>
        (case readFileSync (fs (request_begin now ch w)) (playlist (getPaths (ROOT_DIR w) ch)) of
           Some data \<Rightarrow> fst (manifest_route now ch w) = Body data
         | None \<Rightarrow> fst (manifest_route now ch w) \<noteq> Status503 \<and>
                    (\<forall>f. fst (manifest_route now ch w) \<noteq> SendFile f)) \<and>
        (readFileSync (fs (request_begin now ch w)) (playlist (getPaths (ROOT_DIR w) ch)) = None \<longrightarrow>
           (\<forall>data. readFileSync (fs (request_begin now ch w))
                     (path_join [ASSETS_DIR (ROOT_DIR w), ''loading.m3u8'']) = Some data \<longrightarrow>
                   fst (manifest_route now ch w) = Body data) \<and>
           (\<not> existsSync (fs (request_begin now ch w))
                (path_join [ASSETS_DIR (ROOT_DIR w), ''loading.m3u8'']) \<longrightarrow>
              fst (manifest_route now ch w) = Status202)))"
proof (intro conjI impI)
  assume k: "length sts < 7"
  let ?q = "(on_wait_done ^^ length sts) (start_waiter pl)"
  have r: "wrun (failed_polls sts @ [StatDone (Some n)]) (w, start_waiter pl) =
             on_stat (Some n) (w, ?q)"
    using failed_rounds [OF assms(1), of w pl] k
    by (simp add: wrun_append wrun_def wstep_def round_state)
  show "answer (snd (wrun (failed_polls sts @ [StatDone (Some n)]) (w, start_waiter pl))) =
          Some (SendFile pl)"
    using assms(2) by (simp add: r round_state [OF k] on_stat_def)
  show "suspended (snd (wrun (failed_polls sts @ [StatDone (Some n)]) (w, start_waiter pl))) =
          Returned"
    using assms(2) by (simp add: r round_state [OF k] on_stat_def)
  show "polls (snd (wrun (failed_polls sts @ [StatDone (Some n)]) (w, start_waiter pl))) =
          Suc (length sts)"
    using assms(2) by (simp add: r round_state [OF k] on_stat_def)
  show "waited (snd (wrun (failed_polls sts @ [StatDone (Some n)]) (w, start_waiter pl))) =
          poll_times ! length sts"
    using assms(2) by (simp add: r round_state [OF k] on_stat_def)
  show "bandwidth (stats (fst (wrun (failed_polls sts @ [StatDone (Some n)]) (w, start_waiter pl)))) =
          bandwidth (stats w) + n"
    using assms(2) by (simp add: r round_state [OF k] on_stat_def)
next
  assume "length sts = 7"
  then show "wrun (failed_polls sts) (w, start_waiter pl) =
          (w, \<lparr> w_playlist = pl, waited = 16000, delay = 3000, clientConnected = True,
                suspended = Returned, answer = Some Status503, polls = 7 \<rparr>)"
    using failed_rounds [OF assms(1), of w pl] by (simp add: round_state_last)
next
  assume "valid_channel ch"
  then show "bandwidth (stats (snd (manifest_route now ch w))) = bandwidth (stats w)"
    by (simp add: manifest_route_def Let_def request_begin_bandwidth split: option.splits)
next
  assume "valid_channel ch"
  then show "case readFileSync (fs (request_begin now ch w)) (playlist (getPaths (ROOT_DIR w) ch)) of
           Some data \<Rightarrow> fst (manifest_route now ch w) = Body data
         | None \<Rightarrow> fst (manifest_route now ch w) \<noteq> Status503 \<and>
                    (\<forall>f. fst (manifest_route now ch w) \<noteq> SendFile f)"
    by (simp add: manifest_route_def Let_def split: option.splits)
next
  assume "valid_channel ch"
    and "readFileSync (fs (request_begin now ch w)) (playlist (getPaths (ROOT_DIR w) ch)) = None"
  then show "\<forall>data. readFileSync (fs (request_begin now ch w))
                     (path_join [ASSETS_DIR (ROOT_DIR w), ''loading.m3u8'']) = Some data \<longrightarrow>
                   fst (manifest_route now ch w) = Body data"
    by (auto simp: manifest_route_def Let_def existsSync_def readFileSync_def
        split: option.splits fs_node.splits)
next
  assume "valid_channel ch"
    and "readFileSync (fs (request_begin now ch w)) (playlist (getPaths (ROOT_DIR w) ch)) = None"
    and "\<not> existsSync (fs (request_begin now ch w))
                (path_join [ASSETS_DIR (ROOT_DIR w), ''loading.m3u8''])"
  then show "fst (manifest_route now ch w) = Status202"
    by (simp add: manifest_route_def Let_def)
qed

theorem readiness_waiter_witness:
  "list_all not_ready [None, Some 0] \<and> (0::nat) < 7 \<and>
   answer (snd (wrun (failed_polls [None, Some 0] @ [StatDone (Some 7)])
                  (example_running, example_waiter))) =
     Some (SendFile ''/srv/streams/news1/news1.m3u8'') \<and>
   waited (snd (wrun (failed_polls [None, Some 0] @ [StatDone (Some 7)])
                  (example_running, example_waiter))) = 2500 \<and>
   bandwidth (stats (fst (wrun (failed_polls [None, Some 0] @ [StatDone (Some 7)])
                            (example_running, example_waiter)))) = 7 \<and>
   list_all not_ready [None, None, Some 0, None, None, None, None] \<and>
   answer (snd (wrun (failed_polls [None, None, Some 0, None, None, None, None])
                  (example_running, example_waiter))) = Some Status503 \<and>
   valid_channel ''news1'' \<and>
   fst (manifest_route 2000 ''news1'' example_streaming) = Body ''#EXTM3U'' \<and>
   readFileSync (fs (request_begin 2000 ''news1'' example_placeholder))
     (playlist (getPaths (ROOT_DIR example_placeholder) ''news1'')) = None \<and>
   readFileSync (fs (request_begin 2000 ''news1'' example_placeholder))
     (path_join [ASSETS_DIR (ROOT_DIR example_placeholder), ''loading.m3u8'']) = Some ''#EXTM3U'' \<and>
   fst (manifest_route 2000 ''news1'' example_placeholder) = Body ''#EXTM3U'' \<and>
   \<not> existsSync (fs (request_begin 2000 ''news1'' example_running))
       (path_join [ASSETS_DIR (ROOT_DIR example_running), ''loading.m3u8'']) \<and>
   fst (manifest_route 2000 ''news1'' example_running) = Status202"
  using readiness_waiter [of "[None, Some 0]" 7 example_running "''/srv/streams/news1/news1.m3u8''"
      "''news1''" 2000]
    readiness_waiter [of "[None, None, Some 0, None, None, None, None]" 7 example_running
      "''/srv/streams/news1/news1.m3u8''" "''news1''" 2000]
    readiness_waiter [of "[]" 7 example_streaming "''/srv/streams/news1/news1.m3u8''"
      "''news1''" 2000]
    readiness_waiter [of "[]" 7 example_placeholder "''/srv/streams/news1/news1.m3u8''"
      "''news1''" 2000]
  by (simp add: not_ready_def example_waiter_def poll_times_def valid_news1 example_running_eval
      example_streaming_eval example_placeholder_def request_begin_def active_has_def touch_def
      heap_get_def heap_set_def news1_playlist placeholder_path readFileSync_def existsSync_def
      example_fs_def)

subsection \<open>Disconnection of the consumer during the wait\<close>

text \<open>
  Claim C7, as stated, fails: the \<open>close\<close> handler only clears \<open>clientConnected\<close>, and
  nothing is cancelled. Here the client disconnects while the first wait of 1000 ms is
  pending: the flag is cleared and the handler is still suspended on that timer. And when
  the client disconnects while \<open>fsp.stat\<close> is in flight and the manifest has 7 bytes, the
  route still answers with \<open>sendFile\<close>.
\<close>

theorem disconnect_observed_counterexample:
  "clientConnected example_waiter \<and>
   suspended (snd (wrun [StatDone None] (example_running, example_waiter))) = AwaitTimer 1000 \<and>
   \<not> clientConnected (snd (wrun [StatDone None, Closed] (example_running, example_waiter))) \<and>
   suspended (snd (wrun [StatDone None, Closed] (example_running, example_waiter))) = AwaitTimer 1000 \<and>
   answer (snd (wrun [Closed, StatDone (Some 7)] (example_running, example_waiter))) =
     Some (SendFile ''/srv/streams/news1/news1.m3u8'')"
  by (simp add: example_waiter_eval wrun_def wstep_def on_stat_def on_close_def)

text \<open>
  Claim C7, amended. Once the \<open>close\<close> event has cleared \<open>clientConnected\<close>, whatever
  events follow: no further \<open>fsp.stat\<close> is started; the answer stays as it is, except that
  an \<open>fsp.stat\<close> in flight at the disconnect which finds a non-empty manifest still adds
  its size to \<open>stats.bandwidth\<close> and answers with \<open>sendFile\<close>; so no status 503 and
  no error is sent. The \<open>close\<close> event releases no timer: a pending wait stays pending,
  and when it runs out the loop ends without an answer.
\<close>

theorem disconnect_observed:
  assumes "\<not> clientConnected q"
  shows
    "polls (snd (wrun es (w, q))) = polls q \<and>
     (answer (snd (wrun es (w, q))) = answer q \<or>
      answer (snd (wrun es (w, q))) = Some (SendFile (w_playlist q))) \<and>
     (suspended q \<noteq> AwaitStat \<longrightarrow>
        answer (snd (wrun es (w, q))) = answer q \<and> fst (wrun es (w, q)) = w) \<and>
     (suspended q = AwaitTimer d \<longrightarrow>
        wstep TimerFired (w, q) =
          (w, q\<lparr>waited := waited q + delay q,
                delay := (if delay q < 3000 then delay q + 500 else delay q),
                suspended := Returned\<rparr>)) \<and>
     (suspended q = AwaitStat \<and> 0 < n \<longrightarrow>
        answer (snd (wstep (StatDone (Some n)) (w, q))) = Some (SendFile (w_playlist q)) \<and>
        bandwidth (stats (fst (wstep (StatDone (Some n)) (w, q)))) = bandwidth (stats w) + n) \<and>
     suspended (snd (wstep Closed (w0, q0))) = suspended q0"
proof (intro conjI impI)
  show "polls (snd (wrun es (w, q))) = polls q"
    using closed_run_idle [OF assms, of es w] closed_run_stat [OF assms, of es w]
    by (cases "suspended q = AwaitStat") simp_all
  show "answer (snd (wrun es (w, q))) = answer q \<or>
      answer (snd (wrun es (w, q))) = Some (SendFile (w_playlist q))"
    using closed_run_idle [OF assms, of es w] closed_run_stat [OF assms, of es w]
    by (cases "suspended q = AwaitStat") simp_all
  show "suspended (snd (wstep Closed (w0, q0))) = suspended q0"
    by (simp add: wstep_def on_close_def)
next
  assume "suspended q \<noteq> AwaitStat"
  then show "answer (snd (wrun es (w, q))) = answer q" "fst (wrun es (w, q)) = w"
    using closed_run_idle [OF assms, of es w] by simp_all
next
  assume "suspended q = AwaitTimer d"
  then show "wstep TimerFired (w, q) =
          (w, q\<lparr>waited := waited q + delay q,
                delay := (if delay q < 3000 then delay q + 500 else delay q),
                suspended := Returned\<rparr>)"
    using assms by (simp add: wstep_def on_wait_done_def loop_head_def)
next
  assume a: "suspended q = AwaitStat \<and> 0 < n"
  then show "answer (snd (wstep (StatDone (Some n)) (w, q))) = Some (SendFile (w_playlist q))"
    by (simp add: wstep_def on_stat_def)
  from a show "bandwidth (stats (fst (wstep (StatDone (Some n)) (w, q)))) = bandwidth (stats w) + n"
    by (simp add: wstep_def on_stat_def)
qed

theorem disconnect_observed_witness:
  "\<not> clientConnected (snd (wrun [StatDone None, Closed] (example_running, example_waiter))) \<and>
   suspended (snd (wrun [StatDone None, Closed] (example_running, example_waiter))) =
     AwaitTimer 1000 \<and>
   polls (snd (wrun [TimerFired, StatDone (Some 7), TimerFired]
                 (wrun [StatDone None, Closed] (example_running, example_waiter)))) = 1 \<and>
   answer (snd (wrun [TimerFired, StatDone (Some 7), TimerFired]
                 (wrun [StatDone None, Closed] (example_running, example_waiter)))) = None \<and>
   \<not> clientConnected (snd (wrun [Closed] (example_running, example_waiter))) \<and>
   suspended (snd (wrun [Closed] (example_running, example_waiter))) = AwaitStat \<and>
   polls (snd (wrun [StatDone (Some 7), TimerFired]
                 (wrun [Closed] (example_running, example_waiter)))) = 1 \<and>
   bandwidth (stats (fst (wrun [StatDone (Some 7)]
                 (wrun [Closed] (example_running, example_waiter))))) = 7"
  using disconnect_observed [of "snd (wrun [StatDone None, Closed] (example_running, example_waiter))"
      "[TimerFired, StatDone (Some 7), TimerFired]" example_running 1000 7]
    disconnect_observed [of "snd (wrun [Closed] (example_running, example_waiter))"
      "[StatDone (Some 7), TimerFired]" example_running 1000 7]
  by (simp add: example_waiter_eval example_running_eval wrun_def wstep_def on_stat_def on_close_def)

subsection \<open>The inactivity sweep stops idle channels for good\<close>

text \<open>
  Claim C4. Let a channel have a registry entry whose process is running and whose
  \<open>lastAccess\<close> lies more than 120000 ms before \<open>now\<close>. The sweep at \<open>now\<close> sets
  \<open>intentionalStop\<close> on the entry and sends SIGTERM to its process; the signal is sent in
  a state in which the flag is already set. Whatever events follow the sweep, the exit
  observer of that process adds no timer when it runs: the exit schedules no restart. Both
  variants (the predecessor stops through \<open>stopStream\<close>, which also arms the forced kill).
\<close>

theorem reaper_intentional_stop:
  assumes "map_of (active w) ch = Some r" and "heap_get w r = Some s" and "proc_handle s"
    and "now - lastAccess s > INACTIVITY_LIMIT"
  shows
    "(\<exists>s'. heap_get (sweep now w) r = Some s' \<and> intentionalStop s') \<and>
     (r, SIGTERM) \<in> set (signals (sweep now w)) \<and>
     (\<exists>s'. heap_get (sweep_old now w) r = Some s' \<and> intentionalStop s') \<and>
     (r, SIGTERM) \<in> set (signals (sweep_old now w)) \<and>
     (\<exists>w1 s1. heap_get w1 r = Some s1 \<and> intentionalStop s1 \<and>
        sweep_entry now (ch, r) w = proc_kill r SIGTERM w1) \<and>
     (\<exists>w1 s1. heap_get w1 r = Some s1 \<and> intentionalStop s1 \<and>
        sweep_entry_old now (ch, r) w = setTimeout now (ForceKill r) 5000 (proc_kill r SIGTERM w1)) \<and>
     timers (on_exit t r (run es (sweep now w))) = timers (run es (sweep now w)) \<and>
     timers (on_exit_old t r (run_old es (sweep_old now w))) = timers (run_old es (sweep_old now w))"
proof -
  have m: "(ch, r) \<in> set (active w)"
    using assms(1) by (rule map_of_SomeD)
  have new: "stopped r (sweep now w)" "(r, SIGTERM) \<in> set (signals (sweep now w))"
    using fold_sweep_idle [OF m assms(2,4,3)] by (simp_all add: sweep_def)
  have old: "stopped r (sweep_old now w)" "(r, SIGTERM) \<in> set (signals (sweep_old now w))"
    using fold_sweep_old_idle [OF m assms(2,4,3,1)] by (simp_all add: sweep_old_def)
  have flag: "\<exists>s'. heap_get w' r = Some s' \<and> intentionalStop s'" if "stopped r w'" for w'
    using that by (auto simp: stopped_def split: option.splits)
  let ?w1 = "set_intentionalStop r (console_log (Inactive ch) w)"
  have w1: "\<exists>s1. heap_get ?w1 r = Some s1 \<and> intentionalStop s1"
    using sweep_entry_idle(2) [OF assms(2,4)] by (rule flag)
  have o1: "\<exists>w1 s1. heap_get w1 r = Some s1 \<and> intentionalStop s1 \<and>
        sweep_entry now (ch, r) w = proc_kill r SIGTERM w1"
    using w1 sweep_entry_idle(1) [OF assms(2,4)] by blast
  have o2: "\<exists>w1 s1. heap_get w1 r = Some s1 \<and> intentionalStop s1 \<and>
        sweep_entry_old now (ch, r) w = setTimeout now (ForceKill r) 5000 (proc_kill r SIGTERM w1)"
    using w1 sweep_entry_old_idle(1) [OF assms(2,4,1)] by blast
  have e1: "timers (on_exit t r (run es (sweep now w))) = timers (run es (sweep now w))"
    by (rule stopped_exit_no_restart(1) [OF stopped_run(1) [OF new(1)]])
  have e2: "timers (on_exit_old t r (run_old es (sweep_old now w))) =
              timers (run_old es (sweep_old now w))"
    by (rule stopped_exit_no_restart(2) [OF stopped_run(2) [OF old(1)]])
  show ?thesis
    using flag [OF new(1)] new(2) flag [OF old(1)] old(2) o1 o2 e1 e2 by blast
qed

theorem reaper_intentional_stop_witness:
  "map_of (active example_running) ''news1'' = Some 0 \<and>
   heap_get example_running 0 = Some (hd (heap example_running)) \<and>
   proc_handle (hd (heap example_running)) \<and>
   121001 - lastAccess (hd (heap example_running)) > INACTIVITY_LIMIT \<and>
   (0, SIGTERM) \<in> set (signals (sweep 121001 example_running)) \<and>
   (0, SIGTERM) \<in> set (signals (sweep_old 121001 example_running)) \<and>
   timers (on_exit 122000 0 (run [(121500, Request ''news1'')] (sweep 121001 example_running))) =
     timers (run [(121500, Request ''news1'')] (sweep 121001 example_running))"
  using reaper_intentional_stop [of example_running "''news1''" 0 "hd (heap example_running)"
      121001 122000 "[(121500, Request ''news1'')]"]
  by (simp add: example_running_eval heap_get_def INACTIVITY_LIMIT_def)

subsection \<open>The forced kill after \<open>stopStream\<close>\<close>

text \<open>
  Claim C5 asks that the forced termination scheduled by \<open>stopStream\<close> is sent, 5 seconds
  later, exactly when the process has not exited by then. The timer tests
  \<open>!s.proc.killed\<close>, and \<open>killed\<close> is true from the moment \<open>kill('SIGTERM')\<close> has
  delivered its signal, whether the process has exited or not. Here \<open>stopStream\<close> stops the
  worker of \<open>news1\<close> at 130000 (it returns true, sets the flag, sends SIGTERM and arms the
  timer for 135000); the worker has not exited when the timer fires at 135000, and the only
  signal ever sent is SIGTERM: no SIGKILL. The source's comment on the timer reads "force
  kill if it drags on".
\<close>

theorem stopStream_force_kill_skipped:
  "map_of (active example_running) ''news1'' = Some 0 \<and>
   stopStream 130000 ''news1'' example_running = (True, example_stopping) \<and>
   stopped 0 example_stopping \<and>
   signals example_stopping = [(0, SIGTERM)] \<and>
   timers example_stopping = [(135000, ForceKill 0)] \<and>
   exits 0 example_stopping \<and>
   exits 0 (fire_timer 135000 0 example_stopping) \<and>
   timers (fire_timer 135000 0 example_stopping) = [] \<and>
   signals (fire_timer 135000 0 example_stopping) = [(0, SIGTERM)]"
  by (simp add: example_running_eval example_stopping_eval stopStream_def stopped_def exits_def
      fire_timer_def run_callback_def force_kill_def prim_defs)

text \<open>In general: \<open>stopStream\<close> on an entry with a running process returns true, sets the
  flag, sends SIGTERM and arms one timer for the state object it found; and that timer,
  fired in the state \<open>stopStream\<close> leaves, does nothing.\<close>

lemma stopStream_never_escalates:
  assumes "map_of (active w) ch = Some r" and "heap_get w r = Some s" and "proc_handle s"
  shows "force_kill r (snd (stopStream now ch w)) = snd (stopStream now ch w)"
    and "signals (snd (stopStream now ch w)) = signals w @ [(r, SIGTERM)]"
    and "stopped r (snd (stopStream now ch w))"
    and "timers (snd (stopStream now ch w)) = timers w @ [(now + 5000, ForceKill r)]"
    and "fst (stopStream now ch w)"
  using assms
  by (auto simp: stopStream_live [OF assms] force_kill_def stopped_def heap_get_def
      split: if_splits)

subsection \<open>No path traversal through the channel id\<close>

text \<open>
  Claim C10. For every channel id that the pattern of the manifest route accepts, and an
  absolute \<open>ROOT_DIR\<close> (Node's \<open>__dirname\<close> is absolute), the three paths of
  \<open>getPaths\<close> are the streams directory followed by \<open>/id\<close>, \<open>/id/id.m3u8\<close> and
  \<open>/id/id_%03d.ts\<close>; the id is one segment, without \<open>/\<close> and different from \<open>.\<close> and
  \<open>..\<close>; so each path lies strictly inside the streams directory.
\<close>

theorem getPaths_inside_streams:
  assumes "valid_channel ch" and "isAbsolute root"
  shows
    "dir (getPaths root ch) = STREAMS_DIR root @ ''/'' @ ch \<and>
     playlist (getPaths root ch) = STREAMS_DIR root @ ''/'' @ ch @ ''/'' @ ch @ ''.m3u8'' \<and>
     segments (getPaths root ch) = STREAMS_DIR root @ ''/'' @ ch @ ''/'' @ ch @ ''_%03d.ts'' \<and>
     plain_segment ch \<and>
     path_segments (dir (getPaths root ch)) = path_segments (STREAMS_DIR root) @ [ch] \<and>
     path_segments (playlist (getPaths root ch)) =
       path_segments (STREAMS_DIR root) @ [ch, ch @ ''.m3u8''] \<and>
     path_segments (segments (getPaths root ch)) =
       path_segments (STREAMS_DIR root) @ [ch, ch @ ''_%03d.ts''] \<and>
     strictly_inside (STREAMS_DIR root) (dir (getPaths root ch)) \<and>
     strictly_inside (STREAMS_DIR root) (playlist (getPaths root ch)) \<and>
     strictly_inside (STREAMS_DIR root) (segments (getPaths root ch))"
proof -
  obtain S where S: "list_all plain_segment S" "S \<noteq> []"
      and sd: "STREAMS_DIR root = CHR ''/'' # join_with ''/'' S"
    using STREAMS_DIR_absolute [OF assms(2)] by blast
  note pl = valid_channel_plain [OF assms(1)]
  have S1: "list_all plain_segment (S @ [ch])" "S @ [ch] \<noteq> []"
    using S(1) pl(1) by simp_all
  have d: "dir (getPaths root ch) = CHR ''/'' # join_with ''/'' (S @ [ch])"
    using path_join_plain [OF S pl(1)] by (simp add: getPaths_def Let_def sd)
  have p: "playlist (getPaths root ch) = CHR ''/'' # join_with ''/'' ((S @ [ch]) @ [ch @ ''.m3u8''])"
    using path_join_plain [OF S1 pl(2)] path_join_plain [OF S pl(1)]
    by (simp add: getPaths_def Let_def sd)
  have g: "segments (getPaths root ch) = CHR ''/'' # join_with ''/'' ((S @ [ch]) @ [ch @ ''_%03d.ts''])"
    using path_join_plain [OF S1 pl(3)] path_join_plain [OF S pl(1)]
    by (simp add: getPaths_def Let_def sd)
  have S2: "list_all plain_segment ((S @ [ch]) @ [ch @ ''.m3u8''])"
    "list_all plain_segment ((S @ [ch]) @ [ch @ ''_%03d.ts''])"
    using S1(1) pl(2,3) by simp_all
  have seg0: "path_segments (STREAMS_DIR root) = S"
    using path_segments_abs [OF S] by (simp add: sd)
  have seg1: "path_segments (dir (getPaths root ch)) = S @ [ch]"
    using path_segments_abs [OF S1] by (simp add: d)
  have seg2: "path_segments (playlist (getPaths root ch)) = S @ [ch, ch @ ''.m3u8'']"
    using path_segments_abs [OF S2(1)] by (simp add: p)
  have seg3: "path_segments (segments (getPaths root ch)) = S @ [ch, ch @ ''_%03d.ts'']"
    using path_segments_abs [OF S2(2)] by (simp add: g)
  have e1: "dir (getPaths root ch) = STREAMS_DIR root @ ''/'' @ ch"
    using S(2) by (simp add: d sd join_with_snoc)
  have e2: "playlist (getPaths root ch) = STREAMS_DIR root @ ''/'' @ ch @ ''/'' @ ch @ ''.m3u8''"
    using S(2) by (simp add: p sd join_with_snoc2)
  have e3: "segments (getPaths root ch) = STREAMS_DIR root @ ''/'' @ ch @ ''/'' @ ch @ ''_%03d.ts''"
    using S(2) by (simp add: g sd join_with_snoc2)
  have i1: "strictly_inside (STREAMS_DIR root) (dir (getPaths root ch))"
    using pl(1) by (simp add: strictly_inside_def seg0 seg1)
  have i2: "strictly_inside (STREAMS_DIR root) (playlist (getPaths root ch))"
    using pl(1,2) by (simp add: strictly_inside_def seg0 seg2)
  have i3: "strictly_inside (STREAMS_DIR root) (segments (getPaths root ch))"
    using pl(1,3) by (simp add: strictly_inside_def seg0 seg3)
  show ?thesis
    using e1 e2 e3 pl(1) seg0 seg1 seg2 seg3 i1 i2 i3 by simp
qed

theorem getPaths_inside_streams_witness:
  "valid_channel ''news1'' \<and> isAbsolute ''/srv'' \<and>
   dir (getPaths ''/srv'' ''news1'') = ''/srv/streams/news1'' \<and>
   playlist (getPaths ''/srv'' ''news1'') = ''/srv/streams/news1/news1.m3u8'' \<and>
   segments (getPaths ''/srv'' ''news1'') = ''/srv/streams/news1/news1_%03d.ts'' \<and>
   strictly_inside (STREAMS_DIR ''/srv'') (playlist (getPaths ''/srv'' ''news1''))"
  using getPaths_inside_streams [of "''news1''" "''/srv''"]
  by (simp add: valid_news1 path_eval strictly_inside_def path_segments_def plain_segment_def)

text \<open>The id check is what keeps the paths inside: the pattern rejects \<open>..\<close>, an id with
  a \<open>/\<close> and the empty id, and \<open>getPaths\<close> on \<open>..\<close> would leave the streams
  directory.\<close>

lemma getPaths_unchecked_id:
  "\<not> valid_channel ''..'' \<and> \<not> valid_channel ''a/b'' \<and> \<not> valid_channel [] \<and>
   dir (getPaths ''/srv'' ''..'') = ''/srv''"
  by (simp add: valid_channel_def is_word_char_def path_eval)

end
